theory Spec2Isabelle
  imports Complex_Main "HOL-Library.AList" "HOL-Library.Sublist"
begin

section \<open>Strings, numbers and dates of the JavaScript run time\<close>

text \<open>
  JavaScript strings are modelled as \<open>string\<close>; a character stands for one code unit
  below 256. Numbers that are prices are rationals: the program only multiplies a price by
  a quantity and compares the stored product with that same product, so the rounding of
  IEEE doubles plays no part in what is proved. Instants are milliseconds since the epoch,
  as \<open>Date.now()\<close> and \<open>Date.prototype.getTime\<close> give them.
\<close>

type_synonym instant = int

datatype js_date = Invalid_Date | Date instant

text \<open>\<open>String(n)\<close> for an integer-valued number: its decimal numeral.\<close>

function nat_digits :: "nat \<Rightarrow> string" where
  "nat_digits n =
     (if n < 10 then [char_of (48 + n)]
      else nat_digits (n div 10) @ [char_of (48 + n mod 10)])"
  by pat_completeness auto
termination
  by (relation "measure id") auto

declare nat_digits.simps [simp del]

definition number_string :: "int \<Rightarrow> string" where
  "number_string n = (if n < 0 then CHR ''-'' # nat_digits (nat (- n)) else nat_digits (nat n))"

subsection \<open>Character classes of regular expressions\<close>

definition is_word :: "char \<Rightarrow> bool" where
  \<comment> \<open>\<open>\w\<close>: \<open>[A-Za-z0-9_]\<close>\<close>
  "is_word c = (let n = of_char c :: nat in
     (48 \<le> n \<and> n \<le> 57) \<or> (65 \<le> n \<and> n \<le> 90) \<or> n = 95 \<or> (97 \<le> n \<and> n \<le> 122))"

definition is_space :: "char \<Rightarrow> bool" where
  \<comment> \<open>\<open>\s\<close> below 256: tab, line feed, vertical tab, form feed, carriage return, space,
      no-break space\<close>
  "is_space c = (of_char c \<in> {9, 10, 11, 12, 13, 32, 160 :: nat})"

definition lower :: "char \<Rightarrow> char" where
  \<comment> \<open>case folding of the flag \<open>i\<close> on ASCII letters\<close>
  "lower c = (let n = of_char c :: nat in if 65 \<le> n \<and> n \<le> 90 then char_of (n + 32) else c)"

definition trim :: "string \<Rightarrow> string" where
  \<comment> \<open>the sanitizer \<open>trim()\<close> of the validation chains: white space off both ends\<close>
  "trim s = rev (dropWhile is_space (rev (dropWhile is_space s)))"

subsection \<open>Regular expressions with backtracking\<close>

text \<open>
  The patterns of the program are regular-expression literals. They are embedded as terms
  of \<open>regex\<close> and run by a backtracking matcher: \<open>ends r s i\<close> lists the positions where a
  match of \<open>r\<close> that starts at position \<open>i\<close> of \<open>s\<close> can end, in the order in which
  backtracking tries them, so the head of the list is the match JavaScript reports. A
  star is greedy and, as in JavaScript, does not repeat an iteration that consumed nothing.
\<close>

datatype regex =
    Chr "char \<Rightarrow> bool"
  | Eps
  | Seq regex regex
  | Alt regex regex
  | Star regex
  | NegLook regex
  | WordB

definition word_at :: "string \<Rightarrow> nat \<Rightarrow> bool" where
  "word_at s i = (i < length s \<and> is_word (s ! i))"

function ends :: "regex \<Rightarrow> string \<Rightarrow> nat \<Rightarrow> nat list" where
  "ends (Chr P) s i = (if i < length s \<and> P (s ! i) then [Suc i] else [])"
| "ends Eps s i = [i]"
| "ends (Seq r1 r2) s i = concat (map (\<lambda>j. ends r2 s j) (ends r1 s i))"
| "ends (Alt r1 r2) s i = ends r1 s i @ ends r2 s i"
| "ends (Star r) s i =
     concat (map (\<lambda>j. if i < j \<and> j \<le> length s then ends (Star r) s j else []) (ends r s i)) @ [i]"
| "ends (NegLook r) s i = (if ends r s i = [] then [i] else [])"
| "ends WordB s i = (if (0 < i \<and> word_at s (i - 1)) \<noteq> word_at s i then [i] else [])"
  by pat_completeness auto
termination
  by (relation "inv_image (less_than <*lex*> less_than) (\<lambda>(r, s, i). (size r, length s - i))") auto

definition ci :: "char \<Rightarrow> regex" where
  \<comment> \<open>one literal character under the flag \<open>i\<close>\<close>
  "ci c = Chr (\<lambda>x. lower x = lower c)"

definition lit :: "string \<Rightarrow> regex" where
  "lit s = foldr (\<lambda>c r. Seq (ci c) r) s Eps"

definition plus :: "regex \<Rightarrow> regex" where
  "plus r = Seq r (Star r)"

definition match_at :: "regex \<Rightarrow> string \<Rightarrow> nat \<Rightarrow> nat option" where
  "match_at r s i = (case ends r s i of [] \<Rightarrow> None | e # _ \<Rightarrow> Some e)"

definition regex_test :: "regex \<Rightarrow> string \<Rightarrow> bool" where
  \<comment> \<open>\<open>r.test(s)\<close>: a match starts at some position\<close>
  "regex_test r s = list_ex (\<lambda>i. match_at r s i \<noteq> None) [0..<Suc (length s)]"

text \<open>
  \<open>s.replace(r, '')\<close> for a pattern with the flag \<open>g\<close>: scanning from the left, a match that
  consumed something is dropped and the scan goes on behind it; elsewhere the character is
  kept and the scan moves one position on.
\<close>

function replace_from :: "regex \<Rightarrow> string \<Rightarrow> nat \<Rightarrow> string" where
  "replace_from r s i =
     (if length s \<le> i then []
      else case match_at r s i of
             Some e \<Rightarrow> if i < e \<and> e \<le> length s then replace_from r s e
                       else s ! i # replace_from r s (Suc i)
           | None \<Rightarrow> s ! i # replace_from r s (Suc i))"
  by pat_completeness auto
termination
  by (relation "measure (\<lambda>(r, s, i). length s - i)") auto

declare replace_from.simps [simp del]

definition remove_all :: "regex \<Rightarrow> string \<Rightarrow> string" where
  "remove_all r s = replace_from r s 0"


text \<open>
  The matches that the scan drops, as pairs of the position where a match starts and
  the position where it ends.
\<close>

function dropped :: "regex \<Rightarrow> string \<Rightarrow> nat \<Rightarrow> (nat \<times> nat) list" where
  "dropped r s i =
     (if length s \<le> i then []
      else case match_at r s i of
             Some e \<Rightarrow> if i < e \<and> e \<le> length s then (i, e) # dropped r s e
                       else dropped r s (Suc i)
           | None \<Rightarrow> dropped r s (Suc i))"
  by pat_completeness auto
termination
  by (relation "measure (\<lambda>(r, s, i). length s - i)") auto

declare dropped.simps [simp del]

text \<open>
  What it is for a pass of \<open>replace\<close> to delete the matches of a pattern: \<open>out\<close> is what
  remains of \<open>s\<close> when the spans \<open>ms\<close> are taken out, where the spans follow one another
  without overlap, each of them is a match of the pattern that consumed something, and
  every position of \<open>s\<close> at which such a match starts lies in one of them.
\<close>

definition inside :: "(nat \<times> nat) list \<Rightarrow> nat \<Rightarrow> bool" where
  "inside ms p = list_ex (\<lambda>m. fst m \<le> p \<and> p < snd m) ms"

definition deletes_spans :: "regex \<Rightarrow> string \<Rightarrow> (nat \<times> nat) list \<Rightarrow> string \<Rightarrow> bool" where
  "deletes_spans r s ms out =
     (sorted_wrt (\<lambda>a b. snd a \<le> fst b) ms
      \<and> list_all (\<lambda>m. fst m < snd m \<and> snd m \<le> length s \<and> match_at r s (fst m) = Some (snd m)) ms
      \<and> list_all (\<lambda>p. (case match_at r s p of Some e \<Rightarrow> p < e | None \<Rightarrow> False) \<longrightarrow> inside ms p)
           [0..<length s]
      \<and> out = map ((!) s) (filter (\<lambda>p. \<not> inside ms p) [0..<length s]))"

definition deletes_matches :: "regex \<Rightarrow> string \<Rightarrow> string \<Rightarrow> bool" where
  "deletes_matches r s out = (\<exists>ms. deletes_spans r s ms out)"
section \<open>The input sanitizer\<close>

text \<open>
  The three patterns of \<open>sanitizeInput\<close> (middleware/auth.js, src/unnamed/part_005):
  \<^verbatim>\<open>/<script\b[^<]*(?:(?!<\/script>)<[^<]*)*<\/script>/gi\<close>,
  \<^verbatim>\<open>/javascript:/gi\<close> and \<^verbatim>\<open>/on\w+\s*=/gi\<close>,
  and the pattern the message validators of the order routes and of the order schema test,
  \<^verbatim>\<open>/<script|<\/script|javascript:|on\w+\s*=/i\<close>.
\<close>

definition not_lt :: regex where
  "not_lt = Chr (\<lambda>c. c \<noteq> CHR ''<'')"

definition script_group :: regex where
  \<comment> \<open>the group \<^verbatim>\<open>(?!<\/script>)<[^<]*\<close> that the first pattern repeats\<close>
  "script_group = Seq (NegLook (lit ''</script>'')) (Seq (Chr (\<lambda>c. c = CHR ''<'')) (Star not_lt))"

definition re_script_element :: regex where
  "re_script_element =
     Seq (lit ''<script'') (Seq WordB (Seq (Star not_lt)
       (Seq (Star script_group) (lit ''</script>''))))"

definition re_javascript :: regex where
  "re_javascript = lit ''javascript:''"

definition re_on_handler :: regex where
  "re_on_handler = Seq (lit ''on'') (Seq (plus (Chr is_word)) (Seq (Star (Chr is_space)) (lit ''='')))"

definition re_xss :: regex where
  "re_xss = Alt (lit ''<script'') (Alt (lit ''</script'') (Alt re_javascript re_on_handler))"

definition clean :: "string \<Rightarrow> string" where
  \<comment> \<open>the chain of three \<open>replace\<close> calls applied to a string member\<close>
  "clean s = remove_all re_on_handler (remove_all re_javascript (remove_all re_script_element s))"

subsection \<open>What the patterns of the sanitizer match\<close>

text \<open>
  The three patterns read without the matcher. \<open>starts_ci w s i\<close>: the string \<open>s\<close> reads
  \<open>w\<close> at position \<open>i\<close>, in any letter case.
  \<^item> A script element starts with \<open><script\<close> that no word character follows, and it ends
    with the first \<open></script>\<close> behind that; where none follows there is no match.
  \<^item> \<open>javascript:\<close> as it stands.
  \<^item> An event handler is \<open>on\<close>, all the word characters that follow, of which there is at
    least one, all the white space that follows them, and \<open>=\<close>.
\<close>

definition starts_ci :: "string \<Rightarrow> string \<Rightarrow> nat \<Rightarrow> bool" where
  "starts_ci w s i = (map lower (take (length w) (drop i s)) = map lower w)"

definition script_element_at :: "string \<Rightarrow> nat \<Rightarrow> nat option" where
  "script_element_at s i =
     (if starts_ci ''<script'' s i \<and> \<not> word_at s (i + 7)
      then map_option (\<lambda>q. q + 9) (List.find (starts_ci ''</script>'' s) [i + 7..<length s])
      else None)"

definition javascript_at :: "string \<Rightarrow> nat \<Rightarrow> nat option" where
  "javascript_at s i = (if starts_ci ''javascript:'' s i then Some (i + 11) else None)"

definition on_handler_at :: "string \<Rightarrow> nat \<Rightarrow> nat option" where
  "on_handler_at s i =
     (if starts_ci ''on'' s i
      then (let k = length (takeWhile is_word (drop (i + 2) s));
                m = length (takeWhile is_space (drop (i + 2 + k) s));
                e = i + 2 + k + m
            in if 0 < k \<and> e < length s \<and> s ! e = CHR ''='' then Some (Suc e) else None)
      else None)"

text \<open>
  A string is plain when it holds no \<open><\<close> and no \<open>=\<close>, and no \<open>:\<close> or else no letter \<open>j\<close>.
\<close>

definition plain :: "string \<Rightarrow> bool" where
  "plain s =
     (CHR ''<'' \<notin> set s \<and> CHR ''='' \<notin> set s
      \<and> (CHR '':'' \<notin> set s \<or> (CHR ''j'' \<notin> set s \<and> CHR ''J'' \<notin> set s)))"

datatype json =
    JNull
  | JBool bool
  | JNum rat
  | JStr string
  | JArr "json list"
  | JObj "(string \<times> json) list"

text \<open>
  The inner function \<open>sanitize(obj)\<close> walks the members of \<open>obj\<close> with \<open>for ... in\<close>:
  \<open>sanitize_value\<close> is what happens to one member (a string is rewritten, an object or an
  array is walked in turn, anything else is left alone). Applied to a value that is no
  object or array, the loop changes nothing.
\<close>

fun sanitize_value :: "json \<Rightarrow> json" where
  "sanitize_value (JStr s) = JStr (clean s)"
| "sanitize_value (JArr vs) = JArr (map sanitize_value vs)"
| "sanitize_value (JObj kvs) = JObj (map (\<lambda>kv. (fst kv, sanitize_value (snd kv))) kvs)"
| "sanitize_value v = v"

definition sanitize :: "json \<Rightarrow> json" where
  "sanitize obj = (case obj of JArr vs \<Rightarrow> sanitize_value obj | JObj kvs \<Rightarrow> sanitize_value obj | _ \<Rightarrow> obj)"

text \<open>
  A middleware either hands the request on (\<open>next()\<close>) or answers it. The request is an
  extensible record: the sanitizer touches \<open>body\<close>, \<open>query\<close> and \<open>params\<close>, each only when
  it is truthy, and the request handed on is the one it received, rewritten.
\<close>

datatype ('r, 'a) outcome = Next 'r | Respond 'a

record request_data =
  body :: "json option"
  query :: "json option"
  params :: "json option"

definition truthy :: "json \<Rightarrow> bool" where
  "truthy v = (case v of JNull \<Rightarrow> False | JBool b \<Rightarrow> b | JNum n \<Rightarrow> n \<noteq> 0
                 | JStr s \<Rightarrow> s \<noteq> [] | _ \<Rightarrow> True)"

definition sanitize_part :: "json option \<Rightarrow> json option" where
  "sanitize_part p = (case p of None \<Rightarrow> None | Some v \<Rightarrow> if truthy v then Some (sanitize v) else Some v)"

definition sanitizeInput :: "'a request_data_scheme \<Rightarrow> ('a request_data_scheme, 'b) outcome" where
  "sanitizeInput req =
     Next (req\<lparr>body := sanitize_part (body req),
               query := sanitize_part (query req),
               params := sanitize_part (params req)\<rparr>)"

text \<open>The string members of a value in document order, and the value with every string
  member blanked.\<close>

fun strings_of :: "json \<Rightarrow> string list" where
  "strings_of (JStr s) = [s]"
| "strings_of (JArr vs) = concat (map strings_of vs)"
| "strings_of (JObj kvs) = concat (map (\<lambda>kv. strings_of (snd kv)) kvs)"
| "strings_of v = []"

fun skeleton :: "json \<Rightarrow> json" where
  "skeleton (JStr s) = JStr []"
| "skeleton (JArr vs) = JArr (map skeleton vs)"
| "skeleton (JObj kvs) = JObj (map (\<lambda>kv. (fst kv, skeleton (snd kv))) kvs)"
| "skeleton v = v"

definition is_container :: "json \<Rightarrow> bool" where
  "is_container v = (case v of JArr vs \<Rightarrow> True | JObj kvs \<Rightarrow> True | _ \<Rightarrow> False)"

text \<open>What the sanitizer does to one part of a request: the value keeps its shape and every
  member that is no string; in an object or array every string member is rewritten by
  \<open>clean\<close>; any other value is left as it is.\<close>

definition part_rewritten :: "json option \<Rightarrow> json option \<Rightarrow> bool" where
  "part_rewritten p p' =
     (case p of
        None \<Rightarrow> p' = None
      | Some v \<Rightarrow>
          (\<exists>v'. p' = Some v' \<and> skeleton v' = skeleton v
             \<and> (if is_container v then strings_of v' = map clean (strings_of v) else v' = v)))"

section \<open>Dates of the JavaScript run time\<close>

text \<open>
  Time values are milliseconds since the epoch. The operations are those of the language
  specification: \<open>Day(t)\<close> is the number of the day of a time value and \<open>WeekDay(t)\<close> its
  weekday, 0 for Sunday (day 0 of the epoch was a Thursday); \<open>LocalTime(t)\<close> adds to an
  instant the offset of the local time zone in force at that instant, and \<open>UTC(t)\<close> takes
  from a local time value the offset in force at that local time. The time zone of the
  server is a parameter, given by these two offsets; in a zone without daylight saving
  both are one constant.
\<close>

definition msPerDay :: int where
  "msPerDay = 86400000"

record zone =
  offset_at :: "instant \<Rightarrow> int"
  offset_at_local :: "int \<Rightarrow> int"

definition Day :: "int \<Rightarrow> int" where
  "Day t = t div msPerDay"

definition WeekDay :: "int \<Rightarrow> int" where
  "WeekDay t = (Day t + 4) mod 7"

definition LocalTime :: "zone \<Rightarrow> instant \<Rightarrow> int" where
  "LocalTime z t = t + offset_at z t"

definition UTC :: "zone \<Rightarrow> int \<Rightarrow> instant" where
  "UTC z t = t - offset_at_local z t"

text \<open>
  \<open>setHours(0, 0, 0, 0)\<close> moves a date to the start of its day in local time:
  \<open>UTC(MakeDate(Day(LocalTime(t)), 0))\<close>. \<open>getDay()\<close> is \<open>WeekDay(LocalTime(t))\<close>.
\<close>

definition setHours0 :: "zone \<Rightarrow> instant \<Rightarrow> instant" where
  "setHours0 z t = UTC z (Day (LocalTime z t) * msPerDay)"

definition getDay :: "zone \<Rightarrow> instant \<Rightarrow> int" where
  "getDay z t = WeekDay (LocalTime z t)"



definition fixed_zone :: "int \<Rightarrow> zone" where
  \<comment> \<open>a zone whose local time is always \<open>tz\<close> milliseconds ahead of UTC\<close>
  "fixed_zone tz = \<lparr>offset_at = (\<lambda>t. tz), offset_at_local = (\<lambda>t. tz)\<rparr>"


subsection \<open>Date-only strings\<close>

text \<open>
  \<open>new Date(string)\<close>. A string of the date-only form \<open>YYYY-MM-DD\<close> that names a day of
  the calendar is read as the midnight that begins this day in UTC, wherever the server
  is: \<open>MakeDay\<close> counts the days from the epoch. What any other string is read as is left
  to a parameter.
\<close>

definition digit :: "char \<Rightarrow> int option" where
  "digit c = (let n = of_char c :: nat in if 48 \<le> n \<and> n \<le> 57 then Some (int n - 48) else None)"

fun digits :: "string \<Rightarrow> int \<Rightarrow> int option" where
  "digits [] acc = Some acc"
| "digits (c # cs) acc = (case digit c of None \<Rightarrow> None | Some d \<Rightarrow> digits cs (10 * acc + d))"

definition date_only :: "string \<Rightarrow> (int \<times> int \<times> int) option" where
  "date_only s =
     (if length s = 10 \<and> s ! 4 = CHR ''-'' \<and> s ! 7 = CHR ''-''
      then case (digits (take 4 s) 0, digits (take 2 (drop 5 s)) 0, digits (drop 8 s) 0) of
             (Some y, Some m, Some d) \<Rightarrow> Some (y, m, d)
           | _ \<Rightarrow> None
      else None)"

definition InLeapYear :: "int \<Rightarrow> bool" where
  "InLeapYear y = (y mod 4 = 0 \<and> (y mod 100 \<noteq> 0 \<or> y mod 400 = 0))"

definition DayFromYear :: "int \<Rightarrow> int" where
  "DayFromYear y = 365 * (y - 1970) + (y - 1969) div 4 - (y - 1901) div 100 + (y - 1601) div 400"

definition days_in_month :: "int \<Rightarrow> int \<Rightarrow> int" where
  "days_in_month y m =
     (if m = 2 then (if InLeapYear y then 29 else 28)
      else if m \<in> {4, 6, 9, 11} then 30 else 31)"

definition calendar_date :: "int \<Rightarrow> int \<Rightarrow> int \<Rightarrow> bool" where
  "calendar_date y m d = (1 \<le> m \<and> m \<le> 12 \<and> 1 \<le> d \<and> d \<le> days_in_month y m)"

definition day_number :: "int \<Rightarrow> int \<Rightarrow> int \<Rightarrow> int" where
  \<comment> \<open>\<open>MakeDay(y, m - 1, d)\<close>: the day number of a day of the calendar\<close>
  "day_number y m d =
     DayFromYear y + sum_list (map (days_in_month y) [1..m - 1]) + (d - 1)"

definition stated_day :: "string \<Rightarrow> int option" where
  \<comment> \<open>the day number of the day that a date-only string names\<close>
  "stated_day s =
     (case date_only s of
        Some (y, m, d) \<Rightarrow> if calendar_date y m d then Some (day_number y m d) else None
      | None \<Rightarrow> None)"

definition new_Date :: "(string \<Rightarrow> js_date) \<Rightarrow> string \<Rightarrow> js_date" where
  "new_Date other s =
     (case stated_day s of
        Some D \<Rightarrow> Date (D * msPerDay)
      | None \<Rightarrow> other s)"

subsection \<open>The validators of the delivery date\<close>

text \<open>
  The custom validator of the \<open>deliveryDate\<close> chains of \<open>POST /\<close> and \<open>PUT /:id\<close>
  (routes/orders.js). Its argument is \<open>new Date(value)\<close>; it throws with a message or
  returns true. On an invalid date both comparisons are false and it returns true.
\<close>

definition deliveryDate_custom :: "zone \<Rightarrow> instant \<Rightarrow> js_date \<Rightarrow> string option" where
  "deliveryDate_custom z now v =
     (case v of
        Invalid_Date \<Rightarrow> None
      | Date t \<Rightarrow>
          (let today = setHours0 z now; deliveryDate = setHours0 z t in
           if deliveryDate < today then Some ''Delivery date must be today or in the future''
           else if getDay z deliveryDate = 0 then Some ''Delivery date cannot be Sunday''
           else None))"

text \<open>The validator of the path \<open>deliveryDate\<close> of the order schema (models/Order.js).\<close>

definition schema_deliveryDate_validator :: "zone \<Rightarrow> instant \<Rightarrow> instant \<Rightarrow> bool" where
  "schema_deliveryDate_validator z now v =
     (let today = setHours0 z now; deliveryDate = setHours0 z v in
      if deliveryDate < today then False
      else if getDay z deliveryDate = 0 then False
      else True)"
section \<open>The order document\<close>

record metadata =
  ipAddress :: "string option"
  userAgent :: "string option"
  sessionId :: "string option"

text \<open>
  A document of the order schema. \<open>orderNumber\<close> and \<open>totalPrice\<close> are absent in a document
  that was built from the data of a request and has not been through the pre-save hook;
  \<open>version_key\<close> is Mongoose's \<open>__v\<close>.
\<close>

record order =
  userId :: string
  orderNumber :: "string option"
  productName :: string
  quantity :: int
  deliveryDate :: instant
  deliveryTime :: string
  deliveryLocation :: string
  message :: string
  status :: string
  unitPrice :: rat
  totalPrice :: "rat option"
  createdAt :: instant
  updatedAt :: instant
  shippedAt :: "instant option"
  deliveredAt :: "instant option"
  metadata :: "metadata option"
  version_key :: "nat option"

text \<open>
  The pre-save hook of the schema. \<open>now\<close> is the reading of \<open>Date.now()\<close>, \<open>rand\<close> the
  string \<open>Math.random().toString(36).substr(2, 5).toUpperCase()\<close>. An absent or empty
  order number is falsy.
\<close>

definition pre_save :: "instant \<Rightarrow> string \<Rightarrow> order \<Rightarrow> order" where
  "pre_save now rand this =
     (let this = this\<lparr>updatedAt := now\<rparr>;
          this = this\<lparr>totalPrice := Some (unitPrice this * of_int (quantity this))\<rparr>
      in if orderNumber this = None \<or> orderNumber this = Some []
         then this\<lparr>orderNumber := Some (''ORD-'' @ number_string now @ ''-'' @ rand)\<rparr>
         else this)"

text \<open>The methods \<open>canBeModifiedBy\<close> and \<open>canBeCancelledBy\<close>.\<close>

definition canBeModifiedBy :: "order \<Rightarrow> string \<Rightarrow> bool" where
  "canBeModifiedBy this uid = (userId this = uid \<and> status this \<in> set [''pending'', ''confirmed''])"

definition canBeCancelledBy :: "order \<Rightarrow> string \<Rightarrow> bool" where
  "canBeCancelledBy this uid =
     (userId this = uid \<and> status this \<in> set [''pending'', ''confirmed'', ''processing''])"

text \<open>
  The \<open>toJSON\<close> transform of the schema: the three members of \<open>metadata\<close> and \<open>__v\<close> are
  deleted from the object that is serialized. A serialized order is written as an
  \<open>order\<close> again; an absent member is \<open>None\<close>.
\<close>

definition toJSON :: "order \<Rightarrow> order" where
  "toJSON doc =
     doc\<lparr>metadata := map_option (\<lambda>m. m\<lparr>ipAddress := None, userAgent := None, sessionId := None\<rparr>)
                                 (metadata doc),
         version_key := None\<rparr>"

subsection \<open>The document store as the program uses it\<close>

text \<open>
  What the libraries decide is a parameter of the model:
  \<^item> \<open>time_zone\<close>: the local time zone of the server;
  \<^item> \<open>isISO8601\<close>: the validator of that name; \<open>parse_date\<close>: \<open>new Date(string)\<close> on a
    string that is not a date-only string;
  \<^item> \<open>castable_id\<close>: whether Mongoose casts a string to an ObjectId (otherwise the query
    throws a \<open>CastError\<close>);
  \<^item> \<open>schema_valid\<close>: the verdict of the validators of the schema, other than \<open>required\<close>,
    on the paths Mongoose validates when a document is saved;
  \<^item> \<open>mongo_sort\<close>: the order in which a sorted query returns documents.
\<close>

record env =
  time_zone :: zone
  isISO8601 :: "string \<Rightarrow> bool"
  parse_date :: "string \<Rightarrow> js_date"
  castable_id :: "string \<Rightarrow> bool"
  schema_valid :: "instant \<Rightarrow> order \<Rightarrow> bool"
  mongo_sort :: "string \<Rightarrow> bool \<Rightarrow> order list \<Rightarrow> order list"

datatype mongoose_error = ValidationError | CastError

type_synonym store = "(string \<times> order) list"

definition findById :: "env \<Rightarrow> store \<Rightarrow> string \<Rightarrow> mongoose_error + order option" where
  "findById env db i = (if castable_id env i then Inr (map_of db i) else Inl CastError)"

text \<open>
  \<open>save()\<close>. Mongoose validates a document in a built-in pre-save hook that runs ahead of the
  hooks a schema registers with \<open>pre('save')\<close> (its documentation of middleware: validation
  and all \<open>validate\<close> hooks are called before any \<open>pre('save')\<close> hook): the hook above runs
  only on a document that has passed validation. The paths \<open>orderNumber\<close> and \<open>totalPrice\<close> are \<open>required\<close>; a
  required string must not be empty. (The other required paths are always present in an
  \<open>order\<close>.)
\<close>

definition required_present :: "order \<Rightarrow> bool" where
  "required_present doc =
     (orderNumber doc \<noteq> None \<and> orderNumber doc \<noteq> Some [] \<and> totalPrice doc \<noteq> None
      \<and> userId doc \<noteq> [] \<and> productName doc \<noteq> [] \<and> deliveryTime doc \<noteq> []
      \<and> deliveryLocation doc \<noteq> [])"

definition save :: "env \<Rightarrow> instant \<Rightarrow> string \<Rightarrow> order \<Rightarrow> mongoose_error + order" where
  "save env now rand doc =
     (if required_present doc \<and> schema_valid env now doc
      then Inr (pre_save now rand doc)
      else Inl ValidationError)"

text \<open>
  \<open>findByIdAndUpdate(id, updates, {new: true, runValidators: true})\<close>. The update sets the
  members of \<open>updates\<close>; with \<open>timestamps: true\<close> it also sets \<open>updatedAt\<close>. It runs no
  pre-save hook. An invalid date cannot be cast; the update validators are those of the
  schema on the paths that are set.
\<close>

record updates =
  u_deliveryDate :: "js_date option"
  u_deliveryTime :: "string option"
  u_deliveryLocation :: "string option"
  u_message :: "string option"

definition DELIVERY_TIMES :: "string list" where
  "DELIVERY_TIMES = [''10:00 AM'', ''11:00 AM'', ''12:00 PM'']"

definition DELIVERY_LOCATIONS :: "string list" where
  "DELIVERY_LOCATIONS =
     [''Colombo'', ''Gampaha'', ''Kalutara'', ''Kandy'', ''Matale'', ''Nuwara Eliya'',
      ''Galle'', ''Matara'', ''Hambantota'', ''Jaffna'', ''Kilinochchi'', ''Mannar'',
      ''Vavuniya'', ''Mullaitivu'', ''Batticaloa'', ''Ampara'', ''Trincomalee'',
      ''Kurunegala'', ''Puttalam'', ''Anuradhapura'', ''Polonnaruwa'', ''Badulla'',
      ''Moneragala'', ''Ratnapura'', ''Kegalle'']"

definition schema_message_validator :: "string \<Rightarrow> bool" where
  \<comment> \<open>\<open>maxlength\<close> and the validator of the path \<open>message\<close>, on the trimmed value\<close>
  "schema_message_validator v = (length v \<le> 500 \<and> (v = [] \<or> \<not> regex_test re_xss v))"

definition update_validators :: "env \<Rightarrow> instant \<Rightarrow> updates \<Rightarrow> bool" where
  "update_validators env now u =
     ((case u_deliveryDate u of Some (Date t) \<Rightarrow> schema_deliveryDate_validator (time_zone env) now t
        | _ \<Rightarrow> True)
      \<and> (case u_deliveryTime u of Some v \<Rightarrow> v \<in> set DELIVERY_TIMES | None \<Rightarrow> True)
      \<and> (case u_deliveryLocation u of Some v \<Rightarrow> trim v \<in> set DELIVERY_LOCATIONS | None \<Rightarrow> True)
      \<and> (case u_message u of Some v \<Rightarrow> schema_message_validator (trim v) | None \<Rightarrow> True))"

definition apply_updates :: "instant \<Rightarrow> updates \<Rightarrow> order \<Rightarrow> order" where
  "apply_updates now u doc =
     (let doc = (case u_deliveryDate u of Some (Date t) \<Rightarrow> doc\<lparr>deliveryDate := t\<rparr> | _ \<Rightarrow> doc);
          doc = (case u_deliveryTime u of Some v \<Rightarrow> doc\<lparr>deliveryTime := v\<rparr> | None \<Rightarrow> doc);
          doc = (case u_deliveryLocation u of Some v \<Rightarrow> doc\<lparr>deliveryLocation := trim v\<rparr> | None \<Rightarrow> doc);
          doc = (case u_message u of Some v \<Rightarrow> doc\<lparr>message := trim v\<rparr> | None \<Rightarrow> doc)
      in doc\<lparr>updatedAt := now\<rparr>)"

definition findByIdAndUpdate ::
  "env \<Rightarrow> instant \<Rightarrow> store \<Rightarrow> string \<Rightarrow> updates \<Rightarrow> mongoose_error + (order option \<times> store)" where
  "findByIdAndUpdate env now db i u =
     (if \<not> castable_id env i \<or> u_deliveryDate u = Some Invalid_Date then Inl CastError
      else if \<not> update_validators env now u then Inl ValidationError
      else case map_of db i of
             None \<Rightarrow> Inr (None, db)
           | Some doc \<Rightarrow> Inr (Some (apply_updates now u doc), AList.update i (apply_updates now u doc) db))"

definition total_ok :: "order \<Rightarrow> bool" where
  \<comment> \<open>the stored total is the stored unit price times the stored quantity\<close>
  "total_ok doc = (totalPrice doc = Some (unitPrice doc * of_int (quantity doc)))"

section \<open>The order routes\<close>

text \<open>
  The order router is routes/orders.js (the last document of src/backend/routes/products.js),
  its middleware middleware/auth.js (src/unnamed/part_005), the order schema models/Order.js
  (the second document of src/backend/models/User.js).

  A request to the order router, after body parsing. The members of the JSON body that the
  routes read are strings when they are present, and \<open>quantity\<close> is an integer; every
  other member of the body is kept in \<open>b_other\<close>. \<open>token\<close> is what \<open>verifyToken\<close> finds in
  the \<open>Authorization\<close> header: no bearer token, an empty one, one that \<open>jwtVerify\<close>
  rejects, or a verified one with its subject.
\<close>

record order_body =
  b_productName :: "string option"
  b_quantity :: "int option"
  b_deliveryDate :: "string option"
  b_deliveryTime :: "string option"
  b_deliveryLocation :: "string option"
  b_message :: "string option"
  b_other :: "(string \<times> json) list"

datatype token = No_bearer | Empty_token | Rejected_token | Verified string

record order_request =
  token :: token
  req_body :: order_body
  req_ip :: "string option"
  req_userAgent :: "string option"
  req_sessionId :: "string option"

text \<open>The body as the JSON object it is, and the sanitizer on the typed body.\<close>

definition str_member :: "string \<Rightarrow> string option \<Rightarrow> (string \<times> json) list" where
  "str_member k v = (case v of None \<Rightarrow> [] | Some s \<Rightarrow> [(k, JStr s)])"

definition body_json :: "order_body \<Rightarrow> json" where
  "body_json b =
     JObj (str_member ''productName'' (b_productName b)
           @ (case b_quantity b of None \<Rightarrow> [] | Some n \<Rightarrow> [(''quantity'', JNum (of_int n))])
           @ str_member ''deliveryDate'' (b_deliveryDate b)
           @ str_member ''deliveryTime'' (b_deliveryTime b)
           @ str_member ''deliveryLocation'' (b_deliveryLocation b)
           @ str_member ''message'' (b_message b)
           @ b_other b)"

definition sanitize_body :: "order_body \<Rightarrow> order_body" where
  "sanitize_body b =
     b\<lparr>b_productName := map_option clean (b_productName b),
       b_deliveryDate := map_option clean (b_deliveryDate b),
       b_deliveryTime := map_option clean (b_deliveryTime b),
       b_deliveryLocation := map_option clean (b_deliveryLocation b),
       b_message := map_option clean (b_message b),
       b_other := map (\<lambda>kv. (fst kv, sanitize_value (snd kv))) (b_other b)\<rparr>"

text \<open>
  Replies. A failure carries the status code and the text of \<open>error\<close>; the list \<open>details\<close>
  and the \<open>message\<close> text of a success are left out. \<open>Null_order_reply\<close> is a success whose
  \<open>order\<close> is \<open>null\<close>. The names of the specification's
  error classes are read off the replies the routes send.
\<close>

record pagination =
  currentPage :: int
  totalPages :: "int option"
  totalOrders :: nat
  limit :: int

datatype reply =
    Failure nat string
  | Order_reply nat order
  | Null_order_reply nat
  | Orders_reply "order list" "order list" "order list" pagination

definition is_Forbidden :: "reply \<Rightarrow> bool" where
  "is_Forbidden r = (case r of Failure code text \<Rightarrow> code = 403 | _ \<Rightarrow> False)"

definition is_ValidationFailed :: "reply \<Rightarrow> bool" where
  "is_ValidationFailed r = (case r of Failure code text \<Rightarrow> code = 400 \<and> text = ''Validation failed'' | _ \<Rightarrow> False)"

definition is_Conflict :: "reply \<Rightarrow> bool" where
  \<comment> \<open>the status of the order does not allow the operation\<close>
  "is_Conflict r =
     (case r of
        Failure code text \<Rightarrow>
          code = 400 \<and> (text = ''Order cannot be modified in its current status.''
                        \<or> text = ''Order cannot be cancelled in its current status.'')
      | _ \<Rightarrow> False)"

text \<open>
  The middleware of the router: \<open>sanitizeInput\<close>, \<open>securityLogger\<close> (it only logs) and
  \<open>verifyToken\<close>. They run before a route is matched, when \<open>req.params\<close> is still empty, so
  the \<open>:id\<close> of a route is not rewritten.
\<close>

definition sanitize_request :: "order_request \<Rightarrow> order_request" where
  "sanitize_request req = req\<lparr>req_body := sanitize_body (req_body req)\<rparr>"

definition verifyToken :: "order_request \<Rightarrow> reply + string" where
  "verifyToken req =
     (case token req of
        No_bearer \<Rightarrow> Inl (Failure 401 ''Access denied. No token provided or invalid format.'')
      | Empty_token \<Rightarrow> Inl (Failure 401 ''Access denied. Token is empty.'')
      | Rejected_token \<Rightarrow> Inl (Failure 401 ''Invalid token'')
      | Verified sub \<Rightarrow> Inr sub)"

subsection \<open>Validation chains\<close>

definition PRODUCT_PRICES :: "(string \<times> rat) list" where
  "PRODUCT_PRICES =
     [(''Laptop - Dell XPS 13'', 129999 / 100),
      (''Laptop - MacBook Pro'', 199999 / 100),
      (''Laptop - HP Spectre'', 114999 / 100),
      (''Smartphone - iPhone 15'', 79999 / 100),
      (''Smartphone - Samsung Galaxy S24'', 69999 / 100),
      (''Smartphone - Google Pixel 8'', 59999 / 100),
      (''Tablet - iPad Pro'', 79999 / 100),
      (''Tablet - Surface Pro'', 89999 / 100),
      (''Headphones - Sony WH-1000XM5'', 29999 / 100),
      (''Headphones - Bose QuietComfort'', 24999 / 100),
      (''Smart Watch - Apple Watch'', 39999 / 100),
      (''Smart Watch - Samsung Galaxy Watch'', 24999 / 100),
      (''Camera - Canon EOS R5'', 389999 / 100),
      (''Camera - Sony A7 IV'', 249999 / 100),
      (''Gaming Console - PlayStation 5'', 49999 / 100),
      (''Gaming Console - Xbox Series X'', 49999 / 100)]"

text \<open>
  A chain collects the message of every validator of it that fails. \<open>isIn\<close> and
  \<open>isISO8601\<close> see the empty string when the member is absent; the custom validator of
  the date sees \<open>new Date(undefined)\<close>. After \<open>optional()\<close> an absent member skips the chain.
\<close>

definition isIn_chain :: "string list \<Rightarrow> string \<Rightarrow> string option \<Rightarrow> string list" where
  "isIn_chain allowed msg v =
     (if (case v of Some s \<Rightarrow> s \<in> set allowed | None \<Rightarrow> [] \<in> set allowed) then [] else [msg])"

definition quantity_chain :: "int option \<Rightarrow> string list" where
  "quantity_chain v =
     (if (case v of Some n \<Rightarrow> 1 \<le> n \<and> n \<le> 10 | None \<Rightarrow> False) then []
      else [''Quantity must be between 1 and 10''])"

definition deliveryDate_chain :: "env \<Rightarrow> instant \<Rightarrow> string option \<Rightarrow> string list" where
  "deliveryDate_chain env now v =
     (if (case v of Some s \<Rightarrow> isISO8601 env s | None \<Rightarrow> isISO8601 env []) then [] else [''Invalid value''])
     @ (case deliveryDate_custom (time_zone env) now
               (case v of Some s \<Rightarrow> new_Date (parse_date env) s | None \<Rightarrow> Invalid_Date) of
          Some msg \<Rightarrow> [msg]
        | None \<Rightarrow> [])"

definition message_chain :: "string option \<Rightarrow> string list" where
  \<comment> \<open>always behind \<open>optional()\<close>: the member is present when the chain runs\<close>
  "message_chain v =
     (case v of
        None \<Rightarrow> []
      | Some m \<Rightarrow>
          (let m = trim m in
           (if length m \<le> 500 then [] else [''Message cannot exceed 500 characters''])
           @ (if m \<noteq> [] \<and> regex_test re_xss m then [''Message contains invalid characters'']
              else [])))"

definition optional :: "('a option \<Rightarrow> string list) \<Rightarrow> 'a option \<Rightarrow> string list" where
  "optional chain v = (case v of None \<Rightarrow> [] | Some x \<Rightarrow> chain (Some x))"

definition post_validation :: "env \<Rightarrow> instant \<Rightarrow> order_body \<Rightarrow> string list" where
  "post_validation env now b =
     isIn_chain (map fst PRODUCT_PRICES) ''Invalid product selection'' (b_productName b)
     @ quantity_chain (b_quantity b)
     @ deliveryDate_chain env now (b_deliveryDate b)
     @ isIn_chain DELIVERY_TIMES ''Delivery time must be 10:00 AM, 11:00 AM, or 12:00 PM'' (b_deliveryTime b)
     @ isIn_chain DELIVERY_LOCATIONS ''Invalid delivery location'' (b_deliveryLocation b)
     @ optional message_chain (b_message b)"

definition put_validation :: "env \<Rightarrow> instant \<Rightarrow> order_body \<Rightarrow> string list" where
  "put_validation env now b =
     optional (deliveryDate_chain env now) (b_deliveryDate b)
     @ optional (isIn_chain DELIVERY_TIMES ''Delivery time must be 10:00 AM, 11:00 AM, or 12:00 PM'')
         (b_deliveryTime b)
     @ optional (isIn_chain DELIVERY_LOCATIONS ''Invalid delivery location'') (b_deliveryLocation b)
     @ optional message_chain (b_message b)"

definition after_chains :: "order_body \<Rightarrow> order_body" where
  \<comment> \<open>the sanitizer \<open>trim()\<close> of the message chain writes the trimmed value back\<close>
  "after_chains b = b\<lparr>b_message := map_option trim (b_message b)\<rparr>"

definition is_success :: "reply \<Rightarrow> bool" where
  "is_success r = (case r of Failure code text \<Rightarrow> False | _ \<Rightarrow> True)"

subsection \<open>Handlers\<close>

text \<open>
  Every request to the order router first passes the middleware registered with
  \<open>router.use\<close>; a route sees the sanitized request and the subject of the verified token
  (\<open>req.user.sub\<close>).
\<close>

definition router_use :: "order_request \<Rightarrow> (string \<times> order_request, reply) outcome" where
  "router_use req0 =
     (let req = sanitize_request req0 in
      case verifyToken req of
        Inl denied \<Rightarrow> Respond denied
      | Inr sub \<Rightarrow> Next (sub, req))"

text \<open>\<open>GET /:id\<close>.\<close>

definition get_route :: "env \<Rightarrow> store \<Rightarrow> string \<Rightarrow> string \<Rightarrow> reply" where
  "get_route env db sub i =
     (case findById env db i of
        Inl CastError \<Rightarrow> Failure 400 ''Invalid order ID format''
      | Inl ValidationError \<Rightarrow> Failure 500 ''Failed to fetch order''
      | Inr None \<Rightarrow> Failure 404 ''Order not found''
      | Inr (Some order) \<Rightarrow>
          if userId order \<noteq> sub
          then Failure 403 ''Access denied. You can only access your own orders.''
          else Order_reply 200 (toJSON order))"

definition get_order :: "env \<Rightarrow> store \<Rightarrow> order_request \<Rightarrow> string \<Rightarrow> reply" where
  "get_order env db req0 i =
     (case router_use req0 of
        Respond denied \<Rightarrow> denied
      | Next (sub, req) \<Rightarrow> get_route env db sub i)"

text \<open>
  \<open>POST /\<close>. \<open>oid\<close> is the \<open>_id\<close> Mongoose gives the new document. The product name and
  the delivery location have passed \<open>isIn\<close> and the message has been trimmed, so the \<open>trim\<close>
  setters of the schema change nothing.
\<close>

definition new_order :: "instant \<Rightarrow> string \<Rightarrow> order_request \<Rightarrow> string \<Rightarrow> int \<Rightarrow> instant \<Rightarrow> rat \<Rightarrow> order" where
  "new_order now sub req pname qty date price =
     \<lparr>userId = sub,
      orderNumber = None,
      productName = pname,
      quantity = qty,
      deliveryDate = date,
      deliveryTime = (case b_deliveryTime (req_body req) of Some v \<Rightarrow> v | None \<Rightarrow> []),
      deliveryLocation = (case b_deliveryLocation (req_body req) of Some v \<Rightarrow> v | None \<Rightarrow> []),
      message = (case b_message (req_body req) of Some v \<Rightarrow> v | None \<Rightarrow> []),
      status = ''pending'',
      unitPrice = price,
      totalPrice = None,
      createdAt = now,
      updatedAt = now,
      shippedAt = None,
      deliveredAt = None,
      metadata = Some \<lparr>ipAddress = req_ip req, userAgent = req_userAgent req,
                       sessionId = req_sessionId req\<rparr>,
      version_key = None\<rparr>"

definition create_route ::
  "env \<Rightarrow> instant \<Rightarrow> string \<Rightarrow> string \<Rightarrow> store \<Rightarrow> string \<Rightarrow> order_request \<Rightarrow> reply \<times> store" where
  "create_route env now rand oid db sub req =
     (if post_validation env now (req_body req) \<noteq> [] then (Failure 400 ''Validation failed'', db)
      else
        (let req = req\<lparr>req_body := after_chains (req_body req)\<rparr>; b = req_body req in
         case (b_productName b, b_quantity b, b_deliveryDate b) of
           (Some pname, Some qty, Some d) \<Rightarrow>
             (case (map_of PRODUCT_PRICES pname, new_Date (parse_date env) d) of
                (Some price, Date t) \<Rightarrow>
                  (case save env now rand (new_order now sub req pname qty t price) of
                     Inr saved \<Rightarrow> (Order_reply 201 (toJSON saved), db @ [(oid, saved)])
                   | Inl ValidationError \<Rightarrow> (Failure 400 ''Validation failed'', db)
                   | Inl CastError \<Rightarrow> (Failure 500 ''Failed to create order'', db))
              | _ \<Rightarrow> (Failure 400 ''Validation failed'', db))
         | _ \<Rightarrow> (Failure 400 ''Validation failed'', db)))"

definition create_order ::
  "env \<Rightarrow> instant \<Rightarrow> string \<Rightarrow> string \<Rightarrow> store \<Rightarrow> order_request \<Rightarrow> reply \<times> store" where
  "create_order env now rand oid db req0 =
     (case router_use req0 of
        Respond denied \<Rightarrow> (denied, db)
      | Next (sub, req) \<Rightarrow> create_route env now rand oid db sub req)"

text \<open>\<open>PUT /:id\<close>.\<close>

definition body_updates :: "env \<Rightarrow> order_body \<Rightarrow> updates" where
  "body_updates env b =
     \<lparr>u_deliveryDate = map_option (new_Date (parse_date env)) (b_deliveryDate b),
      u_deliveryTime = b_deliveryTime b,
      u_deliveryLocation = b_deliveryLocation b,
      u_message = b_message b\<rparr>"

definition update_route ::
  "env \<Rightarrow> instant \<Rightarrow> store \<Rightarrow> string \<Rightarrow> order_request \<Rightarrow> string \<Rightarrow> reply \<times> store" where
  "update_route env now db sub req i =
     (if put_validation env now (req_body req) \<noteq> [] then (Failure 400 ''Validation failed'', db)
      else
        (let b = after_chains (req_body req) in
         case findById env db i of
           Inl CastError \<Rightarrow> (Failure 400 ''Invalid order ID format'', db)
         | Inl ValidationError \<Rightarrow> (Failure 400 ''Validation failed'', db)
         | Inr None \<Rightarrow> (Failure 404 ''Order not found'', db)
         | Inr (Some order) \<Rightarrow>
             if \<not> canBeModifiedBy order sub then
               (if userId order \<noteq> sub
                then (Failure 403 ''Access denied. You can only modify your own orders.'', db)
                else (Failure 400 ''Order cannot be modified in its current status.'', db))
             else
               (case findByIdAndUpdate env now db i (body_updates env b) of
                  Inl CastError \<Rightarrow> (Failure 400 ''Invalid order ID format'', db)
                | Inl ValidationError \<Rightarrow> (Failure 400 ''Validation failed'', db)
                | Inr (None, db') \<Rightarrow> (Null_order_reply 200, db')
                | Inr (Some updatedOrder, db') \<Rightarrow> (Order_reply 200 (toJSON updatedOrder), db'))))"

definition update_order ::
  "env \<Rightarrow> instant \<Rightarrow> store \<Rightarrow> order_request \<Rightarrow> string \<Rightarrow> reply \<times> store" where
  "update_order env now db req0 i =
     (case router_use req0 of
        Respond denied \<Rightarrow> (denied, db)
      | Next (sub, req) \<Rightarrow> update_route env now db sub req i)"

text \<open>\<open>DELETE /:id\<close>: the status becomes \<open>cancelled\<close> and the document is saved.\<close>

definition cancel_route ::
  "env \<Rightarrow> instant \<Rightarrow> string \<Rightarrow> store \<Rightarrow> string \<Rightarrow> string \<Rightarrow> reply \<times> store" where
  "cancel_route env now rand db sub i =
     (case findById env db i of
        Inl CastError \<Rightarrow> (Failure 400 ''Invalid order ID format'', db)
      | Inl ValidationError \<Rightarrow> (Failure 500 ''Failed to cancel order'', db)
      | Inr None \<Rightarrow> (Failure 404 ''Order not found'', db)
      | Inr (Some order) \<Rightarrow>
          if \<not> canBeCancelledBy order sub then
            (if userId order \<noteq> sub
             then (Failure 403 ''Access denied. You can only cancel your own orders.'', db)
             else (Failure 400 ''Order cannot be cancelled in its current status.'', db))
          else
            (case save env now rand (order\<lparr>status := ''cancelled''\<rparr>) of
               Inl CastError \<Rightarrow> (Failure 400 ''Invalid order ID format'', db)
             | Inl ValidationError \<Rightarrow> (Failure 500 ''Failed to cancel order'', db)
             | Inr saved \<Rightarrow> (Order_reply 200 (toJSON saved), AList.update i saved db)))"

definition cancel_order ::
  "env \<Rightarrow> instant \<Rightarrow> string \<Rightarrow> store \<Rightarrow> order_request \<Rightarrow> string \<Rightarrow> reply \<times> store" where
  "cancel_order env now rand db req0 i =
     (case router_use req0 of
        Respond denied \<Rightarrow> (denied, db)
      | Next (sub, req) \<Rightarrow> cancel_route env now rand db sub i)"

text \<open>
  \<open>GET /\<close>. The query is read after the sanitizer; \<open>page\<close> and \<open>limit\<close> are what \<open>parseInt\<close>
  makes of them. The documents are fetched with \<open>lean()\<close>: the query returns the stored
  objects as they are, not Mongoose documents, and \<open>res.json\<close> serializes them without the
  \<open>toJSON\<close> transform of the schema. MongoDB refuses a negative \<open>skip\<close>, reads \<open>limit(0)\<close> as
  no limit and a negative limit as its absolute value.
\<close>

record list_query =
  q_page :: "int option"
  q_limit :: "int option"
  q_status :: "string option"
  q_sort :: "string option"
  q_order :: "string option"

definition ORDER_STATUSES :: "string list" where
  "ORDER_STATUSES = [''pending'', ''confirmed'', ''processing'', ''shipped'', ''delivered'', ''cancelled'']"

definition is_upcoming :: "zone \<Rightarrow> instant \<Rightarrow> order \<Rightarrow> bool" where
  "is_upcoming z now order =
     (setHours0 z (deliveryDate order) \<ge> setHours0 z now
      \<and> status order \<in> set [''pending'', ''confirmed'', ''processing'', ''shipped''])"

definition is_past :: "zone \<Rightarrow> instant \<Rightarrow> order \<Rightarrow> bool" where
  "is_past z now order =
     (setHours0 z (deliveryDate order) < setHours0 z now
      \<or> status order = ''delivered'' \<or> status order = ''cancelled'')"

definition sanitize_query :: "list_query \<Rightarrow> list_query" where
  "sanitize_query q =
     q\<lparr>q_status := map_option clean (q_status q), q_sort := map_option clean (q_sort q),
       q_order := map_option clean (q_order q)\<rparr>"

definition list_route :: "env \<Rightarrow> instant \<Rightarrow> store \<Rightarrow> string \<Rightarrow> list_query \<Rightarrow> reply" where
  "list_route env now db sub q =
     (let page = (case q_page q of Some n \<Rightarrow> n | None \<Rightarrow> 1);
          lim = (case q_limit q of Some n \<Rightarrow> n | None \<Rightarrow> 10);
          sort = (case q_sort q of Some s \<Rightarrow> s | None \<Rightarrow> ''createdAt'');
          ord = (case q_order q of Some s \<Rightarrow> s | None \<Rightarrow> ''desc'');
          matches = (\<lambda>order. userId order = sub \<and>
                       (case q_status q of
                          Some s \<Rightarrow> s \<noteq> [] \<and> s \<in> set ORDER_STATUSES \<longrightarrow> status order = s
                        | None \<Rightarrow> True));
          found = mongo_sort env sort (ord = ''desc'') (filter matches (map snd db));
          skipped = drop (nat ((page - 1) * lim)) found;
          orders = (if lim = 0 then skipped else take (nat \<bar>lim\<bar>) skipped)
      in
      if (page - 1) * lim < 0 then Failure 500 ''Failed to fetch orders''
      else Orders_reply orders
             (filter (is_upcoming (time_zone env) now) orders)
             (filter (is_past (time_zone env) now) orders)
             \<lparr>currentPage = page,
              totalPages = (if lim = 0 then None
                            else Some \<lceil>(of_nat (length (filter matches (map snd db))) :: rat) / of_int lim\<rceil>),
              totalOrders = length (filter matches (map snd db)),
              limit = lim\<rparr>)"

definition list_orders :: "env \<Rightarrow> instant \<Rightarrow> store \<Rightarrow> order_request \<Rightarrow> list_query \<Rightarrow> reply" where
  "list_orders env now db req0 q =
     (case router_use req0 of
        Respond denied \<Rightarrow> denied
      | Next (sub, req) \<Rightarrow> list_route env now db sub (sanitize_query q))"

section \<open>Rate limiters\<close>

subsection \<open>The rate limiter of the front end\<close>






subsection \<open>The rate limiters of the server\<close>








section \<open>Example data\<close>

text \<open>
  A server five and a half hours east of UTC; the noon of Saturday 5 January 2030 as the
  current time. The example library takes the date-only strings for ISO 8601 and reads no
  other string as a date.
\<close>

definition example_env :: env where
  "example_env =
     \<lparr>time_zone = fixed_zone 19800000,
      isISO8601 = (\<lambda>s. date_only s \<noteq> None),
      parse_date = (\<lambda>s. Invalid_Date),
      castable_id = (\<lambda>s. length s = 24),
      schema_valid = (\<lambda>now doc. True),
      mongo_sort = (\<lambda>key desc docs. docs)\<rparr>"

definition example_now :: instant where
  "example_now = 1893844800000"

definition example_order :: order where
  "example_order =
     \<lparr>userId = ''auth0|alice1'',
      orderNumber = Some ''ORD-1893000000000-K3J9Q'',
      productName = ''Tablet - iPad Pro'',
      quantity = 2,
      deliveryDate = 1893974400000,
      deliveryTime = ''10:00 AM'',
      deliveryLocation = ''Kandy'',
      message = ''Ring the bell'',
      status = ''pending'',
      unitPrice = 79999 / 100,
      totalPrice = Some (79999 / 50),
      createdAt = 1893000000000,
      updatedAt = 1893000000000,
      shippedAt = None,
      deliveredAt = None,
      metadata = Some \<lparr>ipAddress = Some ''203.0.113.7'', userAgent = Some ''Mozilla/5.0'',
                       sessionId = Some ''s1''\<rparr>,
      version_key = Some 0\<rparr>"

definition example_id :: string where
  "example_id = ''65f0c0ffee0000000000a001''"

definition empty_body :: order_body where
  "empty_body =
     \<lparr>b_productName = None, b_quantity = None, b_deliveryDate = None, b_deliveryTime = None,
      b_deliveryLocation = None, b_message = None, b_other = []\<rparr>"

definition request_of :: "string \<Rightarrow> order_body \<Rightarrow> order_request" where
  "request_of sub b =
     \<lparr>token = Verified sub, req_body = b, req_ip = Some ''203.0.113.7'',
      req_userAgent = Some ''Mozilla/5.0'', req_sessionId = None\<rparr>"

definition example_db :: store where
  "example_db = [(example_id, example_order)]"

definition shipped_db :: store where
  "shipped_db = [(example_id, example_order\<lparr>status := ''shipped''\<rparr>)]"

definition stale_db :: store where
  \<comment> \<open>a stored order whose total is not its unit price times its quantity\<close>
  "stale_db = [(example_id, example_order\<lparr>totalPrice := Some 1\<rparr>)]"

definition retime_body :: order_body where
  "retime_body = empty_body\<lparr>b_deliveryTime := Some ''11:00 AM''\<rparr>"

definition bad_time_body :: order_body where
  "bad_time_body = empty_body\<lparr>b_deliveryTime := Some ''9:00 AM''\<rparr>"

definition retimed_order :: order where
  "retimed_order = example_order\<lparr>deliveryTime := ''11:00 AM'', updatedAt := example_now\<rparr>"

definition valid_body :: order_body where
  "valid_body =
     \<lparr>b_productName = Some ''Tablet - iPad Pro'', b_quantity = Some 2,
      b_deliveryDate = Some ''2030-01-07'', b_deliveryTime = Some ''10:00 AM'',
      b_deliveryLocation = Some ''Kandy'', b_message = None,
      b_other = [(''totalPrice'', JNum 1), (''status'', JStr ''shipped'')]\<rparr>"

definition script_body :: order_body where
  "script_body = valid_body\<lparr>b_message := Some ''<script>alert(1)</script>''\<rparr>"

definition default_query :: list_query where
  "default_query = \<lparr>q_page = None, q_limit = None, q_status = None, q_sort = None, q_order = None\<rparr>"

definition cancelled_order :: order where
  "cancelled_order = example_order\<lparr>status := ''cancelled'', updatedAt := example_now\<rparr>"



definition nested_request :: request_data where
  "nested_request =
     \<lparr>body = Some (JObj [(''message'', JStr ''<script>alert(1)</script>hi''),
                        (''quantity'', JNum 3),
                        (''tags'', JArr [JStr ''javascript:x'', JNull,
                                        JObj [(''note'', JStr ''a onload =b'')]])]),
      query = None,
      params = Some (JObj [])\<rparr>"

definition unclosed_body :: order_body where
  "unclosed_body = valid_body\<lparr>b_message := Some ''<script>x''\<rparr>"

section \<open>Properties\<close>

subsection \<open>Strings in which the patterns cannot match\<close>

lemma lower_cases:
  "lower x = x \<or> (65 \<le> (of_char x :: nat) \<and> (of_char x :: nat) \<le> 90 \<and> (of_char (lower x) :: nat) = of_char x + 32)"
  by (auto simp: lower_def Let_def)

lemma lower_fixed:
  assumes "(of_char c :: nat) < 97 \<or> 122 < (of_char c :: nat)"
  shows "lower x = c \<longleftrightarrow> x = c \<and> \<not> (65 \<le> (of_char c :: nat) \<and> (of_char c :: nat) \<le> 90)"
  using assms lower_cases [of x] by (auto simp: lower_def Let_def)

lemma lower_lt [simp]: "lower x = CHR ''<'' \<longleftrightarrow> x = CHR ''<''"
  by (subst lower_fixed) simp_all

lemma lower_colon [simp]: "lower x = CHR '':'' \<longleftrightarrow> x = CHR '':''"
  by (subst lower_fixed) simp_all

lemma lower_eq [simp]: "lower x = CHR ''='' \<longleftrightarrow> x = CHR ''=''"
  by (subst lower_fixed) simp_all

lemma lower_consts [simp]:
  "lower (CHR ''<'') = CHR ''<''" "lower (CHR '':'') = CHR '':''" "lower (CHR ''='') = CHR ''=''"
  "lower (CHR ''j'') = CHR ''j''" "lower (CHR ''J'') = CHR ''j''"
  by code_simp+

lemma lower_j: "lower x = CHR ''j'' \<longleftrightarrow> x = CHR ''j'' \<or> x = CHR ''J''"
proof
  assume l: "lower x = CHR ''j''"
  show "x = CHR ''j'' \<or> x = CHR ''J''"
  proof (cases "lower x = x")
    case True
    with l show ?thesis by simp
  next
    case False
    with lower_cases [of x] l have "(of_char x :: nat) + 32 = of_char (CHR ''j'')" by auto
    then have "(of_char x :: nat) = of_char (CHR ''J'')" by simp
    then have "x = CHR ''J''" by (simp only: of_char_eq_iff)
    then show ?thesis ..
  qed
next
  assume "x = CHR ''j'' \<or> x = CHR ''J''"
  then show "lower x = CHR ''j''" by auto
qed

lemma lit_Cons: "lit (a # w) = Seq (ci a) (lit w)"
  by (simp add: lit_def)

lemma ends_Seq_left_empty: "ends r1 s i = [] \<Longrightarrow> ends (Seq r1 r2) s i = []"
  by simp

lemma ends_Seq_right_empty: "(\<And>j. ends r2 s j = []) \<Longrightarrow> ends (Seq r1 r2) s i = []"
  by simp

lemma ends_lit_needs:
  assumes "\<forall>x\<in>set s. lower x \<noteq> lower c" and "c \<in> set w"
  shows "ends (lit w) s i = []"
  using assms(2)
proof (induction w arbitrary: i)
  case Nil
  then show ?case by simp
next
  case (Cons a w)
  show ?case
  proof (cases "c = a")
    case True
    then have "ends (ci a) s i = []"
      using assms(1) by (auto simp: ci_def)
    then show ?thesis by (simp add: lit_Cons)
  next
    case False
    with Cons.prems have "c \<in> set w" by simp
    then have "\<And>j. ends (lit w) s j = []" by (rule Cons.IH)
    then show ?thesis by (simp add: lit_Cons)
  qed
qed

lemma no_match_replace_from:
  assumes "\<And>j. j < length s \<Longrightarrow> match_at r s j = None"
  shows "replace_from r s i = drop i s"
proof (induction "length s - i" arbitrary: i)
  case 0
  then show ?case by (subst replace_from.simps) simp
next
  case (Suc n)
  then have "i < length s" by simp
  moreover from Suc have "replace_from r s (Suc i) = drop (Suc i) s" by simp
  ultimately show ?case
    using assms by (subst replace_from.simps) (simp add: Cons_nth_drop_Suc)
qed

lemma no_test_remove_all: "\<not> regex_test r s \<Longrightarrow> remove_all r s = s"
  by (simp add: remove_all_def no_match_replace_from regex_test_def list_ex_iff)

lemma no_match_remove_all: "(\<And>j. ends r s j = []) \<Longrightarrow> remove_all r s = s"
  by (simp add: remove_all_def no_match_replace_from match_at_def)

lemma no_match_test: "(\<And>j. ends r s j = []) \<Longrightarrow> \<not> regex_test r s"
  by (simp add: regex_test_def match_at_def list_ex_iff)

lemma lit_needs_lt: "CHR ''<'' \<notin> set s \<Longrightarrow> CHR ''<'' \<in> set w \<Longrightarrow> ends (lit w) s i = []"
  by (rule ends_lit_needs [where c = "CHR ''<''"]) auto

lemma script_needs_lt: "CHR ''<'' \<notin> set s \<Longrightarrow> ends re_script_element s i = []"
  unfolding re_script_element_def
  by (rule ends_Seq_left_empty, rule lit_needs_lt) auto

lemma javascript_needs_colon: "CHR '':'' \<notin> set s \<Longrightarrow> ends re_javascript s i = []"
  unfolding re_javascript_def
  by (rule ends_lit_needs [where c = "CHR '':''"]) auto

lemma javascript_needs_j:
  "CHR ''j'' \<notin> set s \<Longrightarrow> CHR ''J'' \<notin> set s \<Longrightarrow> ends re_javascript s i = []"
  unfolding re_javascript_def
  by (rule ends_lit_needs [where c = "CHR ''j''"]) (auto simp: lower_j)

lemma on_handler_needs_eq: "CHR ''='' \<notin> set s \<Longrightarrow> ends re_on_handler s i = []"
  unfolding re_on_handler_def
  by (intro ends_Seq_right_empty, rule ends_lit_needs [where c = "CHR ''=''"]) auto

lemma plain_no_match:
  assumes "plain s"
  shows "ends re_script_element s i = []" and "ends re_javascript s i = []"
    and "ends re_on_handler s i = []" and "ends re_xss s i = []"
proof -
  show a: "ends re_script_element s i = []"
    using assms by (simp add: plain_def script_needs_lt)
  show b: "ends re_javascript s i = []"
    using assms javascript_needs_colon [of s i] javascript_needs_j [of s i]
    by (auto simp: plain_def)
  show c: "ends re_on_handler s i = []"
    using assms by (simp add: plain_def on_handler_needs_eq)
  have "ends (lit ''<script'') s i = []" "ends (lit ''</script'') s i = []"
    using assms by (simp_all add: plain_def lit_needs_lt)
  then show "ends re_xss s i = []"
    using b c by (simp add: re_xss_def)
qed

lemma clean_plain: "plain s \<Longrightarrow> clean s = s"
  by (simp add: clean_def no_match_remove_all plain_no_match)

lemma xss_plain: "plain s \<Longrightarrow> \<not> regex_test re_xss s"
  by (simp add: no_match_test plain_no_match)

lemma clean_script_alert: "clean ''<script>alert(1)</script>'' = []"
  by code_simp

subsection \<open>What the patterns match\<close>

declare ends.simps(5) [simp del]

lemma ends_Star: "ends (Star r) s i =
     concat (map (\<lambda>j. if i < j \<and> j \<le> length s then ends (Star r) s j else []) (ends r s i)) @ [i]"
  by (rule ends.simps)

lemma starts_ci_Nil [simp]: "starts_ci [] s i"
  by (simp add: starts_ci_def)

lemma starts_ci_Cons:
  "starts_ci (a # w) s i \<longleftrightarrow> i < length s \<and> lower (s ! i) = lower a \<and> starts_ci w s (Suc i)"
proof (cases "i < length s")
  case True
  then have "drop i s = s ! i # drop (Suc i) s"
    by (simp add: Cons_nth_drop_Suc)
  then show ?thesis
    using True by (simp add: starts_ci_def)
next
  case False
  then show ?thesis by (simp add: starts_ci_def)
qed

lemma ends_ci: "ends (ci a) s i = (if i < length s \<and> lower (s ! i) = lower a then [Suc i] else [])"
  by (simp add: ci_def)

lemma ends_lit: "ends (lit w) s i = (if starts_ci w s i then [i + length w] else [])"
proof (induction w arbitrary: i)
  case Nil
  then show ?case by (simp add: lit_def)
next
  case (Cons a w)
  show ?case
    by (simp add: lit_Cons ends_ci Cons.IH starts_ci_Cons)
qed

lemma starts_ci_length: "starts_ci w s i \<Longrightarrow> w \<noteq> [] \<Longrightarrow> i + length w \<le> length s"
proof -
  assume "starts_ci w s i" and w: "w \<noteq> []"
  then have "length (take (length w) (drop i s)) = length w"
    unfolding starts_ci_def by (metis length_map)
  then show ?thesis using w by (cases "length s \<le> i") auto
qed

lemma takeWhile_drop:
  "takeWhile P (drop i s)
     = (if i < length s \<and> P (s ! i) then s ! i # takeWhile P (drop (Suc i) s) else [])"
proof (cases "i < length s")
  case True
  then have "drop i s = s ! i # drop (Suc i) s"
    by (simp add: Cons_nth_drop_Suc)
  then show ?thesis using True by simp
next
  case False
  then show ?thesis by simp
qed

lemma ends_star_chr:
  "ends (Star (Chr P)) s i = rev [i..<Suc (i + length (takeWhile P (drop i s)))]"
proof (induction "length s - i" arbitrary: i rule: less_induct)
  case less
  show ?case
  proof (cases "i < length s \<and> P (s ! i)")
    case True
    then have d: "drop i s = s ! i # drop (Suc i) s"
      by (simp add: Cons_nth_drop_Suc)
    have IH: "ends (Star (Chr P)) s (Suc i)
                = rev [Suc i..<Suc (Suc i + length (takeWhile P (drop (Suc i) s)))]"
      using True by (intro less) auto
    have "ends (Chr P) s i = [Suc i]"
      using True by simp
    then have "ends (Star (Chr P)) s i = ends (Star (Chr P)) s (Suc i) @ [i]"
      using True by (subst ends_Star) simp
    also have "\<dots> = rev [Suc i..<Suc (Suc i + length (takeWhile P (drop (Suc i) s)))] @ [i]"
      by (simp only: IH)
    also have "\<dots> = rev (i # [Suc i..<Suc (Suc i + length (takeWhile P (drop (Suc i) s)))])"
      by simp
    also have "i # [Suc i..<Suc (Suc i + length (takeWhile P (drop (Suc i) s)))]
                 = [i..<Suc (Suc i + length (takeWhile P (drop (Suc i) s)))]"
      by (subst (2) upt_rec) simp
    also have "Suc i + length (takeWhile P (drop (Suc i) s)) = i + length (takeWhile P (drop i s))"
      using True by (simp add: d)
    finally show ?thesis .
  next
    case False
    then have "takeWhile P (drop i s) = []"
      by (subst takeWhile_drop) simp
    moreover have "ends (Chr P) s i = []"
      using False by simp
    then have "ends (Star (Chr P)) s i = [i]"
      by (subst ends_Star) simp
    ultimately show ?thesis by simp
  qed
qed


lemma concat_map_empty: "(\<And>p. p \<in> set ps \<Longrightarrow> f p = []) \<Longrightarrow> concat (map f ps) = []"
  by (induction ps) simp_all

lemma concat_rev_upt_last:
  assumes "a \<le> b" and "\<And>p. a \<le> p \<Longrightarrow> p < b \<Longrightarrow> f p = []"
  shows "concat (map f (rev [a..<Suc b])) = f b"
proof -
  have "concat (map f (rev [a..<b])) = []"
    using assms(2) by (intro concat_map_empty) auto
  then show ?thesis
    using assms(1) by simp
qed

lemma takeWhile_run:
  assumes "q \<le> p" and "p < q + length (takeWhile P (drop q s))"
  shows "p < length s \<and> P (s ! p)"
proof -
  let ?t = "takeWhile P (drop q s)"
  have l: "p - q < length ?t" using assms by simp
  have "length ?t \<le> length (drop q s)" by (rule length_takeWhile_le)
  with l have d: "p - q < length (drop q s)" by simp
  then have p: "p < length s" using assms(1) by simp
  have "?t ! (p - q) \<in> set ?t" using l by (rule nth_mem)
  then have "P (?t ! (p - q))" by (rule set_takeWhileD [THEN conjunct2])
  moreover have "?t ! (p - q) = drop q s ! (p - q)" using l by (rule takeWhile_nth)
  moreover have "drop q s ! (p - q) = s ! p" using assms(1) p by simp
  ultimately show ?thesis using p by simp
qed

lemma takeWhile_stop:
  assumes "q + length (takeWhile P (drop q s)) < length s"
  shows "\<not> P (s ! (q + length (takeWhile P (drop q s))))"
proof -
  let ?t = "takeWhile P (drop q s)"
  have "length ?t < length (drop q s)" using assms by simp
  then have "\<not> P (drop q s ! length ?t)" by (rule nth_length_takeWhile)
  moreover have "drop q s ! length ?t = s ! (q + length ?t)" using assms by simp
  ultimately show ?thesis by simp
qed

lemma ends_plus_chr:
  "ends (plus (Chr P)) s j = rev [Suc j..<Suc (j + length (takeWhile P (drop j s)))]"
proof (cases "j < length s \<and> P (s ! j)")
  case True
  then have "ends (plus (Chr P)) s j = ends (Star (Chr P)) s (Suc j)"
    by (simp add: plus_def)
  moreover have "takeWhile P (drop j s) = s ! j # takeWhile P (drop (Suc j) s)"
    using True by (subst takeWhile_drop) simp
  ultimately show ?thesis
    by (simp add: ends_star_chr)
next
  case False
  then have "takeWhile P (drop j s) = []"
    by (subst takeWhile_drop) simp
  with False show ?thesis
    by (auto simp: plus_def)
qed

lemma ends_lit_eq: "ends (lit ''='') s p = (if p < length s \<and> s ! p = CHR ''='' then [Suc p] else [])"
  by (simp add: ends_lit starts_ci_Cons)

lemma word_not_space: "is_word c \<Longrightarrow> \<not> is_space c \<and> c \<noteq> CHR ''=''"
  by (auto simp: is_word_def is_space_def Let_def)

lemma space_not_eq: "is_space c \<Longrightarrow> c \<noteq> CHR ''=''"
  by (auto simp: is_space_def)

lemma ends_space_eq:
  "ends (Seq (Star (Chr is_space)) (lit ''='')) s q =
     (let e = q + length (takeWhile is_space (drop q s))
      in if e < length s \<and> s ! e = CHR ''='' then [Suc e] else [])"
proof -
  let ?m = "length (takeWhile is_space (drop q s))"
  have "ends (lit ''='') s p = []" if "q \<le> p" "p < q + ?m" for p
    using takeWhile_run [OF that] space_not_eq by (auto simp: ends_lit_eq)
  then have "concat (map (ends (lit ''='') s) (rev [q..<Suc (q + ?m)])) = ends (lit ''='') s (q + ?m)"
    by (intro concat_rev_upt_last) simp_all
  then show ?thesis
    by (simp add: ends_star_chr ends_lit_eq Let_def)
qed

lemma ends_on_handler:
  "ends re_on_handler s i = (case on_handler_at s i of Some e \<Rightarrow> [e] | None \<Rightarrow> [])"
proof (cases "starts_ci ''on'' s i")
  case False
  then show ?thesis
    by (simp add: re_on_handler_def on_handler_at_def ends_lit)
next
  case True
  let ?j = "i + 2"
  let ?k = "length (takeWhile is_word (drop ?j s))"
  let ?tail = "Seq (Star (Chr is_space)) (lit ''='')"
  have l: "ends (lit ''on'') s i = [?j]"
    using True by (simp add: ends_lit)
  have "ends re_on_handler s i
          = concat (map (ends (Seq (plus (Chr is_word)) ?tail) s) (ends (lit ''on'') s i))"
    by (simp only: re_on_handler_def ends.simps(3))
  also have "\<dots> = ends (Seq (plus (Chr is_word)) ?tail) s ?j"
    by (simp only: l list.map concat.simps append_Nil2)
  also have "\<dots> = concat (map (ends ?tail s) (ends (plus (Chr is_word)) s ?j))"
    by (simp only: ends.simps(3))
  finally have a: "ends re_on_handler s i = concat (map (ends ?tail s) (rev [Suc ?j..<Suc (?j + ?k)]))"
    by (simp only: ends_plus_chr)
  show ?thesis
  proof (cases "?k = 0")
    case True
    with a \<open>starts_ci ''on'' s i\<close> show ?thesis
      by (simp add: on_handler_at_def Let_def)
  next
    case False
    have inner: "ends ?tail s p = []" if "Suc ?j \<le> p" "p < ?j + ?k" for p
    proof -
      have w: "p < length s \<and> is_word (s ! p)"
        using that takeWhile_run [where q = "?j" and p = p and P = is_word and s = s] by simp
      then have "takeWhile is_space (drop p s) = []"
        using word_not_space by (subst takeWhile_drop) simp
      then show ?thesis
        using w word_not_space unfolding ends_space_eq Let_def by simp
    qed
    have "0 < ?k" using False by simp
    then have "Suc ?j \<le> ?j + ?k" by linarith
    then have "concat (map (ends ?tail s) (rev [Suc ?j..<Suc (?j + ?k)])) = ends ?tail s (?j + ?k)"
      using inner by (rule concat_rev_upt_last)
    with a have "ends re_on_handler s i = ends ?tail s (?j + ?k)"
      by simp
    then show ?thesis
      using False \<open>starts_ci ''on'' s i\<close>
      unfolding ends_space_eq by (simp add: on_handler_at_def Let_def)
  qed
qed

lemma match_at_javascript: "match_at re_javascript s i = javascript_at s i"
  by (simp add: match_at_def re_javascript_def ends_lit javascript_at_def)

lemma match_at_on_handler: "match_at re_on_handler s i = on_handler_at s i"
  by (simp add: match_at_def ends_on_handler split: option.splits)


text \<open>The pattern of the script element.\<close>

lemma close_needs_lt: "starts_ci ''</script>'' s p \<Longrightarrow> p < length s \<and> s ! p = CHR ''<''"
  by (simp add: starts_ci_Cons)

lemma takeWhile_le: "q \<le> length s \<Longrightarrow> q + length (takeWhile P (drop q s)) \<le> length s"
  using length_takeWhile_le [of P "drop q s"] by simp

lemma find_app:
  "List.find P (xs @ ys) = (case List.find P xs of None \<Rightarrow> List.find P ys | Some x \<Rightarrow> Some x)"
  by (induction xs) simp_all

lemma find_skip:
  assumes "a \<le> b" and "b \<le> n" and "\<And>q. a \<le> q \<Longrightarrow> q < b \<Longrightarrow> \<not> P q"
  shows "List.find P [a..<n] = List.find P [b..<n]"
proof -
  have "[a..<n] = [a..<b] @ [b..<n]"
    using assms(1,2) by (metis le_Suc_ex upt_add_eq_append)
  moreover have "List.find P [a..<b] = None"
    using assms(3) by (simp add: find_None_iff)
  ultimately show ?thesis
    by (simp add: find_app)
qed

lemma ends_script_group:
  "ends script_group s p =
     (if p < length s \<and> s ! p = CHR ''<'' \<and> \<not> starts_ci ''</script>'' s p
      then rev [Suc p..<Suc (Suc p + length (takeWhile (\<lambda>c. c \<noteq> CHR ''<'') (drop (Suc p) s)))]
      else [])"
  by (auto simp: script_group_def ends_lit not_lt_def ends_star_chr)

lemma ends_star_group_stop:
  assumes "\<not> (p < length s \<and> s ! p = CHR ''<'' \<and> \<not> starts_ci ''</script>'' s p)"
  shows "ends (Star script_group) s p = [p]"
proof -
  have "ends script_group s p = []"
    unfolding ends_script_group using assms by (rule if_not_P)
  then show ?thesis
    by (subst ends_Star) simp
qed

lemma closes_other:
  assumes "\<not> (p < length s \<and> s ! p = CHR ''<'')"
  shows "concat (map (ends (lit ''</script>'') s) (ends (Star script_group) s p)) = []"
proof -
  have "\<not> starts_ci ''</script>'' s p"
    using assms close_needs_lt by blast
  then show ?thesis
    using assms by (simp add: ends_star_group_stop ends_lit)
qed

lemma closes_at_lt:
  assumes "p \<le> length s" and "p < length s \<longrightarrow> s ! p = CHR ''<''"
  shows "concat (map (ends (lit ''</script>'') s) (ends (Star script_group) s p))
           = (case List.find (starts_ci ''</script>'' s) [p..<length s] of
                Some q \<Rightarrow> [q + 9] | None \<Rightarrow> [])"
  using assms
proof (induction "length s - p" arbitrary: p rule: less_induct)
  case less
  let ?L = "ends (lit ''</script>'') s"
  show ?case
  proof (cases "p < length s")
    case False
    then show ?thesis
      using less.prems by (simp add: closes_other)
  next
    case True
    then have lt: "s ! p = CHR ''<''" using less.prems by simp
    have up: "[p..<length s] = p # [Suc p..<length s]"
      using True by (simp add: upt_conv_Cons)
    show ?thesis
    proof (cases "starts_ci ''</script>'' s p")
      case True
      then show ?thesis
        by (simp add: ends_star_group_stop ends_lit up)
    next
      case False
      let ?b = "Suc p + length (takeWhile (\<lambda>c. c \<noteq> CHR ''<'') (drop (Suc p) s))"
      have b: "?b \<le> length s"
        using True by (intro takeWhile_le) simp
      have run: "q < length s \<and> s ! q \<noteq> CHR ''<''" if "Suc p \<le> q" "q < ?b" for q
        using that by (rule takeWhile_run)
      have stop: "?b < length s \<longrightarrow> s ! ?b = CHR ''<''"
        using takeWhile_stop [of "Suc p" "\<lambda>c. c \<noteq> CHR ''<''" s] by simp
      have g: "ends script_group s p = rev [Suc p..<Suc ?b]"
        using True lt False by (simp add: ends_script_group)
      have "ends (Star script_group) s p
              = concat (map (\<lambda>j. if p < j \<and> j \<le> length s then ends (Star script_group) s j else [])
                  (rev [Suc p..<Suc ?b])) @ [p]"
        by (subst ends_Star) (simp only: g)
      also have "map (\<lambda>j. if p < j \<and> j \<le> length s then ends (Star script_group) s j else [])
                   (rev [Suc p..<Suc ?b])
                 = map (ends (Star script_group) s) (rev [Suc p..<Suc ?b])"
        using b by (intro map_cong) auto
      also have "map (ends (Star script_group) s) (rev [Suc p..<Suc ?b])
                 = ends (Star script_group) s ?b # map (\<lambda>q. [q]) (rev [Suc p..<?b])"
      proof -
        have "map (ends (Star script_group) s) (rev [Suc p..<?b]) = map (\<lambda>q. [q]) (rev [Suc p..<?b])"
          using run by (intro map_cong) (auto simp: ends_star_group_stop)
        then show ?thesis by simp
      qed
      finally have star: "ends (Star script_group) s p
              = ends (Star script_group) s ?b @ rev [Suc p..<?b] @ [p]"
        by (simp add: concat_map_singleton)
      have mid: "concat (map ?L (rev [Suc p..<?b])) = []"
      proof (rule concat_map_empty)
        fix q assume "q \<in> set (rev [Suc p..<?b])"
        then have "Suc p \<le> q" "q < ?b" by auto
        then have "s ! q \<noteq> CHR ''<''" using run by blast
        then have "\<not> starts_ci ''</script>'' s q" using close_needs_lt by blast
        then show "?L q = []" by (simp add: ends_lit)
      qed
      have Lp: "?L p = []"
        using False by (simp add: ends_lit)
      have "concat (map ?L (ends (Star script_group) s p))
              = concat (map ?L (ends (Star script_group) s ?b))"
        by (simp only: star map_append concat_append mid Lp list.map concat.simps append_Nil2)
      also have "\<dots> = (case List.find (starts_ci ''</script>'' s) [?b..<length s] of
                Some q \<Rightarrow> [q + 9] | None \<Rightarrow> [])"
        using True b stop by (intro less) auto
      also have "List.find (starts_ci ''</script>'' s) [?b..<length s]
                   = List.find (starts_ci ''</script>'' s) [Suc p..<length s]"
        using b run close_needs_lt by (intro find_skip [symmetric]) auto
      finally show ?thesis
        using False by (simp add: up)
    qed
  qed
qed

lemma lower_t_word: "lower x = lower (CHR ''t'') \<Longrightarrow> is_word x"
  by (auto simp: lower_def is_word_def Let_def split: if_splits)


lemma script_open:
  assumes "starts_ci ''<script'' s i"
  shows "i + 7 \<le> length s" and "word_at s (i + 6)"
proof -
  from assms have "i + 6 < length s \<and> lower (s ! (i + 6)) = lower (CHR ''t'')"
    by (simp add: starts_ci_Cons eval_nat_numeral)
  then show "i + 7 \<le> length s" and "word_at s (i + 6)"
    using lower_t_word by (simp_all add: word_at_def)
qed

lemma ends_script_element:
  "ends re_script_element s i = (case script_element_at s i of Some e \<Rightarrow> [e] | None \<Rightarrow> [])"
proof (cases "starts_ci ''<script'' s i")
  case False
  then show ?thesis
    by (simp add: re_script_element_def script_element_at_def ends_lit)
next
  case True
  let ?a = "i + 7"
  let ?R = "Seq (Star script_group) (lit ''</script>'')"
  let ?rest = "Seq (Star not_lt) ?R"
  let ?b = "?a + length (takeWhile (\<lambda>c. c \<noteq> CHR ''<'') (drop ?a s))"
  have l: "ends (lit ''<script'') s i = [?a]"
    using True by (simp add: ends_lit)
  have "ends re_script_element s i
          = concat (map (ends (Seq WordB ?rest) s) (ends (lit ''<script'') s i))"
    by (simp only: re_script_element_def ends.simps(3))
  also have "\<dots> = ends (Seq WordB ?rest) s ?a"
    by (simp only: l list.map concat.simps append_Nil2)
  also have "\<dots> = concat (map (ends ?rest s) (ends WordB s ?a))"
    by (simp only: ends.simps(3))
  finally have whole: "ends re_script_element s i = concat (map (ends ?rest s) (ends WordB s ?a))" .
  have "?a - 1 = i + 6" by simp
  then have wb: "ends WordB s ?a = (if word_at s ?a then [] else [?a])"
    using script_open(2) [OF True] by (simp only: ends.simps) simp
  show ?thesis
  proof (cases "word_at s ?a")
    case True
    with whole wb \<open>starts_ci ''<script'' s i\<close> show ?thesis
      by (simp add: script_element_at_def)
  next
    case False
    have a: "?a \<le> length s" using script_open(1) [OF True] .
    have b: "?b \<le> length s" using a by (rule takeWhile_le)
    have run: "q < length s \<and> s ! q \<noteq> CHR ''<''" if "?a \<le> q" "q < ?b" for q
      using that by (rule takeWhile_run)
    have stop: "?b < length s \<longrightarrow> s ! ?b = CHR ''<''"
      using takeWhile_stop [of ?a "\<lambda>c. c \<noteq> CHR ''<''" s] by simp
    have R: "ends ?R s q = concat (map (ends (lit ''</script>'') s) (ends (Star script_group) s q))" for q
      by (simp only: ends.simps(3))
    have "ends ?rest s ?a = concat (map (ends ?R s) (ends (Star not_lt) s ?a))"
      by (simp only: ends.simps(3))
    also have "\<dots> = concat (map (ends ?R s) (rev [?a..<Suc ?b]))"
      by (simp only: not_lt_def ends_star_chr)
    also have "\<dots> = ends ?R s ?b"
    proof (rule concat_rev_upt_last)
      show "?a \<le> ?b" by simp
      fix q assume "?a \<le> q" "q < ?b"
      then have "\<not> (q < length s \<and> s ! q = CHR ''<'')" using run by blast
      then show "ends ?R s q = []"
        unfolding R by (rule closes_other)
    qed
    also have "\<dots> = (case List.find (starts_ci ''</script>'' s) [?b..<length s] of
                Some q \<Rightarrow> [q + 9] | None \<Rightarrow> [])"
      unfolding R using b stop by (rule closes_at_lt)
    also have "List.find (starts_ci ''</script>'' s) [?b..<length s]
                 = List.find (starts_ci ''</script>'' s) [?a..<length s]"
    proof (rule find_skip [symmetric])
      show "?a \<le> ?b" by simp
      show "?b \<le> length s" by (rule b)
      fix q assume "?a \<le> q" "q < ?b"
      then have "s ! q \<noteq> CHR ''<''" using run by blast
      then show "\<not> starts_ci ''</script>'' s q" using close_needs_lt by blast
    qed
    finally have rest: "ends ?rest s ?a = (case List.find (starts_ci ''</script>'' s) [?a..<length s] of
                Some q \<Rightarrow> [q + 9] | None \<Rightarrow> [])" .
    have "ends re_script_element s i = ends ?rest s ?a"
      using whole wb False by simp
    then show ?thesis
      using False \<open>starts_ci ''<script'' s i\<close>
      by (simp only: rest) (simp add: script_element_at_def split: option.splits)
  qed
qed

lemma match_at_script_element: "match_at re_script_element s i = script_element_at s i"
  by (simp add: match_at_def ends_script_element split: option.splits)

subsection \<open>A pass of \<open>replace\<close> deletes the matches it finds\<close>

lemma ends_le: "j \<in> set (ends r s i) \<Longrightarrow> i \<le> length s \<Longrightarrow> j \<le> length s"
proof (induction r s i arbitrary: j rule: ends.induct)
  case (5 r s i)
  from "5.prems"(1) have "j = i \<or> (\<exists>k\<in>set (ends r s i). i < k \<and> k \<le> length s \<and> j \<in> set (ends (Star r) s k))"
    by (subst (asm) ends_Star) (auto split: if_splits)
  then show ?case
    using "5.IH"(2) "5.prems"(2) by auto
qed (auto split: if_splits)

lemma match_at_le: "match_at r s i = Some e \<Longrightarrow> i \<le> length s \<Longrightarrow> e \<le> length s"
  by (cases "ends r s i") (auto simp: match_at_def intro: ends_le [where r = r and i = i])

lemma dropped_spans:
  "m \<in> set (dropped r s i) \<Longrightarrow>
     i \<le> fst m \<and> fst m < snd m \<and> snd m \<le> length s \<and> match_at r s (fst m) = Some (snd m)"
proof (induction r s i rule: dropped.induct)
  case (1 r s i)
  show ?case
  proof (cases "length s \<le> i")
    case True
    with "1.prems" show ?thesis by (subst (asm) dropped.simps) simp
  next
    case False
    show ?thesis
    proof (cases "match_at r s i")
      case None
      with False "1.prems" have "m \<in> set (dropped r s (Suc i))"
        by (subst (asm) dropped.simps) simp
      with "1.IH" False None show ?thesis by auto
    next
      case (Some e)
      show ?thesis
      proof (cases "i < e \<and> e \<le> length s")
        case True
        with False Some "1.prems" have "m = (i, e) \<or> m \<in> set (dropped r s e)"
          by (subst (asm) dropped.simps) simp
        with "1.IH" False Some True show ?thesis by auto
      next
        case no: False
        with False Some "1.prems" have "m \<in> set (dropped r s (Suc i))"
          by (subst (asm) dropped.simps) auto
        with "1.IH" False Some no show ?thesis by auto
      qed
    qed
  qed
qed


lemma inside_iff: "inside ms p \<longleftrightarrow> (\<exists>m\<in>set ms. fst m \<le> p \<and> p < snd m)"
  by (simp add: inside_def list_ex_iff)

lemma dropped_end: "length s \<le> i \<Longrightarrow> dropped r s i = []"
  by (subst dropped.simps) simp

lemma dropped_match:
  "\<not> length s \<le> i \<Longrightarrow> match_at r s i = Some e \<Longrightarrow> i < e \<Longrightarrow> e \<le> length s
     \<Longrightarrow> dropped r s i = (i, e) # dropped r s e"
  by (subst dropped.simps) simp

lemma dropped_skip:
  "\<not> length s \<le> i \<Longrightarrow> \<not> (\<exists>e. match_at r s i = Some e \<and> i < e \<and> e \<le> length s)
     \<Longrightarrow> dropped r s i = dropped r s (Suc i)"
  by (subst dropped.simps) (auto split: option.splits)

lemma replace_from_end: "length s \<le> i \<Longrightarrow> replace_from r s i = []"
  by (subst replace_from.simps) simp

lemma replace_from_match:
  "\<not> length s \<le> i \<Longrightarrow> match_at r s i = Some e \<Longrightarrow> i < e \<Longrightarrow> e \<le> length s
     \<Longrightarrow> replace_from r s i = replace_from r s e"
  by (subst replace_from.simps) simp

lemma replace_from_skip:
  "\<not> length s \<le> i \<Longrightarrow> \<not> (\<exists>e. match_at r s i = Some e \<and> i < e \<and> e \<le> length s)
     \<Longrightarrow> replace_from r s i = s ! i # replace_from r s (Suc i)"
  by (subst replace_from.simps) (auto split: option.splits)

lemma dropped_sorted: "sorted_wrt (\<lambda>a b. snd a \<le> fst b) (dropped r s i)"
proof (induction "length s - i" arbitrary: i rule: less_induct)
  case less
  show ?case
  proof (cases "length s \<le> i")
    case True
    then show ?thesis by (simp add: dropped_end)
  next
    case False
    show ?thesis
    proof (cases "\<exists>e. match_at r s i = Some e \<and> i < e \<and> e \<le> length s")
      case True
      then obtain e where e: "match_at r s i = Some e" "i < e" "e \<le> length s" by blast
      have "sorted_wrt (\<lambda>a b. snd a \<le> fst b) (dropped r s e)"
        using e False by (intro less) simp
      moreover have "\<forall>m\<in>set (dropped r s e). e \<le> fst m"
        using dropped_spans by blast
      ultimately show ?thesis
        by (simp add: dropped_match [OF False e])
    next
      case no: False
      have "sorted_wrt (\<lambda>a b. snd a \<le> fst b) (dropped r s (Suc i))"
        using False by (intro less) simp
      then show ?thesis
        by (simp add: dropped_skip [OF False no])
    qed
  qed
qed

lemma dropped_covers:
  assumes "match_at r s p = Some e" and "p < e" and "i \<le> p" and "p < length s"
  shows "inside (dropped r s i) p"
  using assms(3)
proof (induction "length s - i" arbitrary: i rule: less_induct)
  case less
  have i: "\<not> length s \<le> i" using less.prems assms(4) by simp
  show ?case
  proof (cases "\<exists>e. match_at r s i = Some e \<and> i < e \<and> e \<le> length s")
    case True
    then obtain e' where e': "match_at r s i = Some e'" "i < e'" "e' \<le> length s" by blast
    have d: "dropped r s i = (i, e') # dropped r s e'"
      using i e' by (rule dropped_match)
    show ?thesis
    proof (cases "p < e'")
      case True
      then show ?thesis using less.prems by (simp add: d inside_iff)
    next
      case False
      then have "inside (dropped r s e') p"
        using e' i by (intro less) simp_all
      then show ?thesis by (auto simp: d inside_iff)
    qed
  next
    case False
    have "p \<noteq> i"
    proof
      assume "p = i"
      with assms(1,2,4) match_at_le [of r s p e] have "match_at r s i = Some e \<and> i < e \<and> e \<le> length s"
        by simp
      with False show False by blast
    qed
    then have "inside (dropped r s (Suc i)) p"
      using less.prems i by (intro less) simp_all
    then show ?thesis
      by (simp add: dropped_skip [OF i False])
  qed
qed

lemma replace_from_dropped:
  "replace_from r s i = map ((!) s) (filter (\<lambda>p. \<not> inside (dropped r s i) p) [i..<length s])"
proof (induction "length s - i" arbitrary: i rule: less_induct)
  case less
  show ?case
  proof (cases "length s \<le> i")
    case True
    then show ?thesis by (simp add: replace_from_end)
  next
    case False
    show ?thesis
    proof (cases "\<exists>e. match_at r s i = Some e \<and> i < e \<and> e \<le> length s")
      case True
      then obtain e where e: "match_at r s i = Some e" "i < e" "e \<le> length s" by blast
      have d: "dropped r s i = (i, e) # dropped r s e"
        using False e by (rule dropped_match)
      have IH: "replace_from r s e = map ((!) s) (filter (\<lambda>p. \<not> inside (dropped r s e) p) [e..<length s])"
        using e False by (intro less) simp
      have split: "[i..<length s] = [i..<e] @ [e..<length s]"
        using e by (metis le_Suc_ex less_imp_le_nat upt_add_eq_append)
      have a: "filter (\<lambda>p. \<not> inside (dropped r s i) p) [i..<e] = []"
        by (auto simp: d inside_iff filter_empty_conv)
      have b: "filter (\<lambda>p. \<not> inside (dropped r s i) p) [e..<length s]
                 = filter (\<lambda>p. \<not> inside (dropped r s e) p) [e..<length s]"
        by (rule filter_cong) (auto simp: d inside_iff)
      have "replace_from r s i = replace_from r s e"
        using False e by (rule replace_from_match)
      then show ?thesis
        by (simp only: IH split filter_append a b append_Nil)
    next
      case no: False
      have d: "dropped r s i = dropped r s (Suc i)"
        using False no by (rule dropped_skip)
      have IH: "replace_from r s (Suc i)
                  = map ((!) s) (filter (\<lambda>p. \<not> inside (dropped r s (Suc i)) p) [Suc i..<length s])"
        using False by (intro less) simp
      have out: "\<not> inside (dropped r s (Suc i)) i"
        using dropped_spans [of _ r s "Suc i"] by (fastforce simp: inside_iff)
      have up: "[i..<length s] = i # [Suc i..<length s]"
        using False by (simp add: upt_conv_Cons)
      have "replace_from r s i = s ! i # replace_from r s (Suc i)"
        using False no by (rule replace_from_skip)
      then show ?thesis
        by (simp add: IH d up out)
    qed
  qed
qed

lemma remove_all_deletes: "deletes_matches r s (remove_all r s)"
proof -
  have "deletes_spans r s (dropped r s 0) (remove_all r s)"
    unfolding deletes_spans_def
  proof (intro conjI)
    show "sorted_wrt (\<lambda>a b. snd a \<le> fst b) (dropped r s 0)"
      by (rule dropped_sorted)
    show "list_all (\<lambda>m. fst m < snd m \<and> snd m \<le> length s \<and> match_at r s (fst m) = Some (snd m))
            (dropped r s 0)"
      using dropped_spans [of _ r s 0] by (simp add: list_all_iff)
    show "list_all (\<lambda>p. (case match_at r s p of Some e \<Rightarrow> p < e | None \<Rightarrow> False)
                          \<longrightarrow> inside (dropped r s 0) p) [0..<length s]"
      using dropped_covers [of r s _ _ 0] by (auto simp: list_all_iff split: option.splits)
    show "remove_all r s = map ((!) s) (filter (\<lambda>p. \<not> inside (dropped r s 0) p) [0..<length s])"
      by (simp add: remove_all_def replace_from_dropped)
  qed
  then show ?thesis
    unfolding deletes_matches_def ..
qed

subsection \<open>The middleware of the order router\<close>

lemma router_use_verified:
  "token req = Verified u \<Longrightarrow> router_use req = Next (u, sanitize_request req)"
  by (simp add: router_use_def verifyToken_def sanitize_request_def)

lemma router_use_denied: "router_use req = Respond r \<Longrightarrow> \<not> is_success r"
  by (auto simp: router_use_def verifyToken_def is_success_def Let_def split: token.splits)

text \<open>The sanitizer on the typed body is the sanitizer on the JSON object the body is.\<close>

lemma sanitize_body_json: "sanitize (body_json b) = body_json (sanitize_body b)"
  by (simp add: body_json_def sanitize_def sanitize_body_def str_member_def
           split: option.splits)

lemma sanitize_examples:
  "sanitize_request (request_of u empty_body) = request_of u empty_body"
  "sanitize_request (request_of u retime_body) = request_of u retime_body"
  "sanitize_request (request_of u bad_time_body) = request_of u bad_time_body"
  "sanitize_request (request_of u valid_body) = request_of u valid_body"
  by (simp_all add: sanitize_request_def request_of_def sanitize_body_def empty_body_def
        retime_body_def bad_time_body_def valid_body_def clean_plain plain_def)

lemma token_request_of: "token (request_of u b) = Verified u"
  by (simp add: request_of_def)

lemma router_use_examples:
  "router_use (request_of u empty_body) = Next (u, request_of u empty_body)"
  "router_use (request_of u retime_body) = Next (u, request_of u retime_body)"
  "router_use (request_of u bad_time_body) = Next (u, request_of u bad_time_body)"
  "router_use (request_of u valid_body) = Next (u, request_of u valid_body)"
  by (simp_all add: router_use_verified sanitize_examples token_request_of)

subsection \<open>The sanitizer\<close>

lemma subseq_replace_from: "subseq (replace_from r s i) (drop i s)"
proof (induction r s i rule: replace_from.induct)
  case (1 r s i)
  show ?case
  proof (cases "length s \<le> i")
    case True
    then show ?thesis by (subst replace_from.simps) simp
  next
    case False
    then have i: "i < length s" by simp
    have keep: "subseq (s ! i # replace_from r s (Suc i)) (drop i s)"
      if "subseq (replace_from r s (Suc i)) (drop (Suc i) s)"
      using that i by (simp add: Cons_nth_drop_Suc [symmetric])
    show ?thesis
    proof (cases "match_at r s i")
      case None
      have "subseq (replace_from r s (Suc i)) (drop (Suc i) s)"
        using "1.IH" False None by auto
      with False None keep show ?thesis
        by (subst replace_from.simps) simp
    next
      case (Some e)
      show ?thesis
      proof (cases "i < e \<and> e \<le> length s")
        case True
        then have "subseq (replace_from r s e) (drop e s)"
          using "1.IH" False Some by auto
        moreover have "drop e s = drop (e - i) (drop i s)"
          using True by simp
        ultimately have "subseq (replace_from r s e) (drop i s)"
          by (metis subseq_drop_many append_take_drop_id)
        with False Some True show ?thesis
          by (subst replace_from.simps) simp
      next
        case no: False
        have "subseq (replace_from r s (Suc i)) (drop (Suc i) s)"
          using "1.IH" False Some no by auto
        with False Some no keep show ?thesis
          by (subst replace_from.simps) auto
      qed
    qed
  qed
qed

lemma subseq_remove_all: "subseq (remove_all r s) s"
  using subseq_replace_from [of r s 0] by (simp add: remove_all_def)

lemma subseq_clean: "subseq (clean s) s"
  unfolding clean_def
  by (meson subseq_remove_all subseq_order.trans)

lemma strings_of_sanitize_value: "strings_of (sanitize_value v) = map clean (strings_of v)"
  by (induction v rule: sanitize_value.induct) (simp_all add: map_concat comp_def cong: map_cong)

lemma skeleton_sanitize_value: "skeleton (sanitize_value v) = skeleton v"
  by (induction v rule: sanitize_value.induct) (simp_all add: comp_def cong: map_cong)

lemma sanitize_container: "is_container v \<Longrightarrow> sanitize v = sanitize_value v"
  by (cases v) (simp_all add: sanitize_def is_container_def)

lemma sanitize_other: "\<not> is_container v \<Longrightarrow> sanitize v = v"
  by (cases v) (simp_all add: sanitize_def is_container_def)

lemma sanitize_part_rewritten: "part_rewritten p (sanitize_part p)"
proof (cases p)
  case None
  then show ?thesis by (simp add: part_rewritten_def sanitize_part_def)
next
  case (Some v)
  show ?thesis
  proof (cases "is_container v")
    case True
    then have "truthy v"
      by (cases v) (simp_all add: is_container_def truthy_def)
    with Some True show ?thesis
      by (simp add: part_rewritten_def sanitize_part_def sanitize_container
            strings_of_sanitize_value skeleton_sanitize_value)
  next
    case False
    with Some show ?thesis
      by (simp add: part_rewritten_def sanitize_part_def sanitize_other)
  qed
qed

text \<open>
  Claim C8, as amended. \<open>sanitizeInput\<close> always hands the request on, and the request it
  hands on is the one it received with \<open>body\<close>, \<open>query\<close> and \<open>params\<close> rewritten: each part
  keeps its shape and every member that is no string, at any depth; in an object or array
  every string member, at any depth, is replaced by the result of the three substitutions
  (\<open>clean\<close>). They are applied one after the other, each to the result of the one before:
  first the script elements are deleted, then \<open>javascript:\<close>, then the event handlers.
  Each substitution deletes the matches that its scan from the left finds: they do not
  overlap, and no position of its input at which a match starts is left outside them.
  What the three patterns match is what \<open>script_element_at\<close>, \<open>javascript_at\<close> and
  \<open>on_handler_at\<close> say. The result is a subsequence of the string, and a string in which
  none of the three patterns matches is unchanged.
\<close>

theorem sanitizeInput_rewrites:
  "\<exists>req'. (sanitizeInput req :: ('a request_data_scheme, 'b) outcome) = Next req'
     \<and> request_data.more req' = request_data.more req
     \<and> part_rewritten (body req) (body req')
     \<and> part_rewritten (query req) (query req')
     \<and> part_rewritten (params req) (params req')
     \<and> (\<forall>s. \<exists>a b. deletes_matches re_script_element s a \<and> deletes_matches re_javascript a b
              \<and> deletes_matches re_on_handler b (clean s))
     \<and> (\<forall>s i. match_at re_script_element s i = script_element_at s i)
     \<and> (\<forall>s i. match_at re_javascript s i = javascript_at s i)
     \<and> (\<forall>s i. match_at re_on_handler s i = on_handler_at s i)
     \<and> (\<forall>s. subseq (clean s) s)
     \<and> (\<forall>s. \<not> regex_test re_script_element s \<and> \<not> regex_test re_javascript s
              \<and> \<not> regex_test re_on_handler s \<longrightarrow> clean s = s)"
proof -
  have same: "clean s = s"
    if "\<not> regex_test re_script_element s" "\<not> regex_test re_javascript s"
       "\<not> regex_test re_on_handler s" for s
    using that by (simp add: clean_def no_test_remove_all)
  have passes: "\<exists>a b. deletes_matches re_script_element s a \<and> deletes_matches re_javascript a b
                  \<and> deletes_matches re_on_handler b (clean s)" for s
    unfolding clean_def using remove_all_deletes by blast
  show ?thesis
    using same passes
    by (simp add: sanitizeInput_def sanitize_part_rewritten subseq_clean
          match_at_script_element match_at_javascript match_at_on_handler)
qed

theorem sanitizeInput_rewrites_witness:
  "(sanitizeInput nested_request :: (request_data, unit) outcome)
     = Next \<lparr>body = Some (JObj [(''message'', JStr ''hi''),
                               (''quantity'', JNum 3),
                               (''tags'', JArr [JStr ''x'', JNull, JObj [(''note'', JStr ''a b'')]])]),
             query = None,
             params = Some (JObj [])\<rparr>
   \<and> part_rewritten (body nested_request)
        (Some (JObj [(''message'', JStr ''hi''),
                     (''quantity'', JNum 3),
                     (''tags'', JArr [JStr ''x'', JNull, JObj [(''note'', JStr ''a b'')]])]))
   \<and> subseq (clean ''a onload =b'') ''a onload =b''
   \<and> match_at re_script_element ''a<SCRIPT src=x>alert(2)</Script>b'' 1 = Some 32
   \<and> match_at re_script_element ''<script>x'' 0 = None
   \<and> match_at re_javascript ''xJavaScript:y'' 1 = Some 12
   \<and> match_at re_on_handler ''a onload =b'' 2 = Some 10"
proof -
  let ?out = "\<lparr>body = Some (JObj [(''message'', JStr ''hi''),
                               (''quantity'', JNum 3),
                               (''tags'', JArr [JStr ''x'', JNull, JObj [(''note'', JStr ''a b'')]])]),
             query = None,
             params = Some (JObj [])\<rparr>"
  have ev: "(sanitizeInput nested_request :: (request_data, unit) outcome) = Next ?out"
    by code_simp
  have at: "script_element_at ''a<SCRIPT src=x>alert(2)</Script>b'' 1 = Some 32"
    "script_element_at ''<script>x'' 0 = None"
    "javascript_at ''xJavaScript:y'' 1 = Some 12"
    "on_handler_at ''a onload =b'' 2 = Some 10"
    by code_simp+
  obtain req' where r: "(sanitizeInput nested_request :: (request_data, unit) outcome) = Next req'"
    and p: "part_rewritten (body nested_request) (body req')"
    and s: "\<forall>s. subseq (clean s) s"
    and m: "\<forall>s i. match_at re_script_element s i = script_element_at s i"
      "\<forall>s i. match_at re_javascript s i = javascript_at s i"
      "\<forall>s i. match_at re_on_handler s i = on_handler_at s i"
    using sanitizeInput_rewrites [of nested_request] by blast
  from r ev have "req' = ?out" by simp
  with p s ev m at show ?thesis by simp
qed

text \<open>
  The claim as it was stated has the patterns removed from every string. Where a match is
  deleted the text on its two sides is joined, and it can read as a pattern again: the
  sanitizer hands on strings that hold a script element, \<open>javascript:\<close> and an event
  handler.
\<close>

theorem rejoined_patterns_counterexample:
  "(sanitizeInput \<lparr>body = Some (JObj [(''message'', JStr ''<scr<script></script>ipt>alert(1)</script>''),
                                       (''url'', JStr ''javajavascript:script:alert(1)''),
                                       (''note'', JStr ''<img src=x oonerror=nerror=alert(1)>'')]),
                    query = None, params = None\<rparr> :: (request_data, unit) outcome)
     = Next \<lparr>body = Some (JObj [(''message'', JStr ''<script>alert(1)</script>''),
                               (''url'', JStr ''javascript:alert(1)''),
                               (''note'', JStr ''<img src=x onerror=alert(1)>'')]),
             query = None, params = None\<rparr>
   \<and> regex_test re_script_element ''<script>alert(1)</script>''
   \<and> regex_test re_javascript ''javascript:alert(1)''
   \<and> regex_test re_on_handler ''<img src=x onerror=alert(1)>''"
  by code_simp
subsection \<open>The message rule behind the sanitizer\<close>

lemma message_chain_set:
  "''Message contains invalid characters'' \<in> set (message_chain (Some m))
     \<longleftrightarrow> trim m \<noteq> [] \<and> regex_test re_xss (trim m)"
  by (simp add: message_chain_def Let_def)

lemma other_chains_set:
  "''Message contains invalid characters'' \<notin> set (isIn_chain allowed ''Invalid product selection'' v)"
  "''Message contains invalid characters''
     \<notin> set (isIn_chain allowed ''Delivery time must be 10:00 AM, 11:00 AM, or 12:00 PM'' v)"
  "''Message contains invalid characters'' \<notin> set (isIn_chain allowed ''Invalid delivery location'' v)"
  "''Message contains invalid characters'' \<notin> set (quantity_chain n)"
  "''Message contains invalid characters'' \<notin> set (deliveryDate_chain env now v)"
  by (simp_all add: isIn_chain_def quantity_chain_def deliveryDate_chain_def
        deliveryDate_custom_def Let_def split: js_date.splits option.splits)

lemma post_validation_message:
  "''Message contains invalid characters'' \<in> set (post_validation env now b)
     \<longleftrightarrow> (\<exists>m. b_message b = Some m \<and> trim m \<noteq> [] \<and> regex_test re_xss (trim m))"
  by (cases "b_message b")
     (simp_all add: post_validation_def optional_def other_chains_set message_chain_set)

lemma put_validation_message:
  "''Message contains invalid characters'' \<in> set (put_validation env now b)
     \<longleftrightarrow> (\<exists>m. b_message b = Some m \<and> trim m \<noteq> [] \<and> regex_test re_xss (trim m))"
  by (cases "b_message b"; cases "b_deliveryDate b"; cases "b_deliveryTime b";
      cases "b_deliveryLocation b")
     (simp_all add: put_validation_def optional_def other_chains_set message_chain_set)

text \<open>
  Claim C2, as amended. The sanitizer runs before the validation chains, so the message
  rule of \<open>POST /\<close> and \<open>PUT /:id\<close> (\<open>Message contains invalid characters\<close>) judges the message
  after the three substitutions, trimmed: it fires exactly when that string is not empty
  and still matches one of \<open><script\<close>, \<open></script\<close>, \<open>javascript:\<close>, \<open>on\w+\s*=\<close>. The
  message \<open><script>alert(1)</script>\<close> is rewritten to the empty string, for which the rule
  does not fire. A request that passes validation hands on the sanitized, trimmed message.
\<close>

theorem message_rule_after_sanitizer:
  "(''Message contains invalid characters'' \<in> set (post_validation env now (sanitize_body b))
      \<longleftrightarrow> (\<exists>m. b_message b = Some m \<and> trim (clean m) \<noteq> []
                \<and> regex_test re_xss (trim (clean m))))
   \<and> (''Message contains invalid characters'' \<in> set (put_validation env now (sanitize_body b))
      \<longleftrightarrow> (\<exists>m. b_message b = Some m \<and> trim (clean m) \<noteq> []
                \<and> regex_test re_xss (trim (clean m))))
   \<and> clean ''<script>alert(1)</script>'' = []
   \<and> b_message (after_chains (sanitize_body b)) = map_option (\<lambda>m. trim (clean m)) (b_message b)"
  by (cases "b_message b")
     (simp_all add: post_validation_message put_validation_message clean_script_alert
        sanitize_body_def after_chains_def)

theorem message_rule_after_sanitizer_witness:
  "''Message contains invalid characters''
     \<in> set (post_validation example_env example_now (sanitize_body unclosed_body))
   \<and> ''Message contains invalid characters''
     \<notin> set (post_validation example_env example_now (sanitize_body script_body))"
proof -
  have u: "b_message unclosed_body = Some ''<script>x''"
    and s: "b_message script_body = Some ''<script>alert(1)</script>''"
    by (simp_all add: unclosed_body_def script_body_def)
  have c: "trim (clean ''<script>x'') = ''<script>x''"
    by code_simp
  have t: "regex_test re_xss ''<script>x''"
    by code_simp
  have e: "trim [] = []"
    by (simp add: trim_def)
  show ?thesis
    using message_rule_after_sanitizer [of example_env example_now unclosed_body]
      message_rule_after_sanitizer [of example_env example_now script_body] u s c t e
    by simp
qed

theorem script_message_counterexample:
  "b_message script_body = Some ''<script>alert(1)</script>''
   \<and> post_validation example_env example_now (sanitize_body script_body) = []
   \<and> b_message (after_chains (sanitize_body script_body)) = Some []"
proof -
  have s: "sanitize_body script_body = valid_body\<lparr>b_message := Some []\<rparr>"
    by (simp add: script_body_def valid_body_def sanitize_body_def clean_script_alert
          clean_plain plain_def)
  have v: "post_validation example_env example_now (valid_body\<lparr>b_message := Some []\<rparr>) = []"
    by code_simp
  show ?thesis
    by (simp add: s v) (simp add: script_body_def after_chains_def trim_def)
qed

subsection \<open>Ownership and status\<close>

text \<open>
  Claim C4, as amended. An order is stored under an id and owned by \<open>A\<close>; the request comes
  with a verified token whose subject \<open>B\<close> is not \<open>A\<close>. Reading and cancelling are
  answered with 403. Updating is answered with 403 when the body passes the validation
  chains of the route, which run first, and with 400 \<open>Validation failed\<close> when it does not.
  Cancelling and updating leave the store as it was.
\<close>

theorem non_owner_forbidden:
  assumes stored: "map_of db i = Some order"
    and cast: "castable_id env i"
    and auth: "token req = Verified B"
    and other: "userId order \<noteq> B"
  shows "is_Forbidden (get_order env db req i)
       \<and> is_Forbidden (fst (cancel_order env now rand db req i))
       \<and> snd (cancel_order env now rand db req i) = db
       \<and> (if put_validation env now (sanitize_body (req_body req)) = []
          then is_Forbidden (fst (update_order env now db req i))
          else is_ValidationFailed (fst (update_order env now db req i)))
       \<and> snd (update_order env now db req i) = db"
proof -
  have v: "router_use req = Next (B, sanitize_request req)"
    using auth by (rule router_use_verified)
  have f: "findById env db i = Inr (Some order)"
    using stored cast by (simp add: findById_def)
  have b: "req_body (sanitize_request req) = sanitize_body (req_body req)"
    by (simp add: sanitize_request_def)
  have g: "is_Forbidden (get_order env db req i)"
    using other by (simp add: get_order_def get_route_def v f is_Forbidden_def)
  have c: "cancel_order env now rand db req i
             = (Failure 403 ''Access denied. You can only cancel your own orders.'', db)"
    using other by (simp add: cancel_order_def cancel_route_def v f canBeCancelledBy_def)
  have u: "update_order env now db req i =
             (if put_validation env now (sanitize_body (req_body req)) = []
              then (Failure 403 ''Access denied. You can only modify your own orders.'', db)
              else (Failure 400 ''Validation failed'', db))"
    using other by (simp add: update_order_def update_route_def v f b canBeModifiedBy_def)
  show ?thesis
    using g by (simp add: c u is_Forbidden_def is_ValidationFailed_def)
qed

theorem non_owner_forbidden_witness:
  "is_Forbidden (get_order example_env example_db (request_of ''auth0|bob2'' retime_body) example_id)
   \<and> is_Forbidden (fst (cancel_order example_env example_now ''AB12C'' example_db
                           (request_of ''auth0|bob2'' retime_body) example_id))
   \<and> is_Forbidden (fst (update_order example_env example_now example_db
                           (request_of ''auth0|bob2'' retime_body) example_id))
   \<and> snd (update_order example_env example_now example_db
            (request_of ''auth0|bob2'' retime_body) example_id) = example_db"
proof -
  have stored: "map_of example_db example_id = Some example_order"
    by (simp add: example_db_def)
  have cast: "castable_id example_env example_id"
    by (simp add: example_env_def example_id_def)
  have auth: "token (request_of ''auth0|bob2'' retime_body) = Verified ''auth0|bob2''"
    by (rule token_request_of)
  have other: "userId example_order \<noteq> ''auth0|bob2''"
    by (simp add: example_order_def)
  have "sanitize_body (req_body (request_of ''auth0|bob2'' retime_body)) = retime_body"
    using sanitize_examples(2) [of "''auth0|bob2''"]
    by (simp add: sanitize_request_def request_of_def)
  moreover have "put_validation example_env example_now retime_body = []"
    by code_simp
  ultimately have valid: "put_validation example_env example_now
                 (sanitize_body (req_body (request_of ''auth0|bob2'' retime_body))) = []"
    by simp
  show ?thesis
    using non_owner_forbidden [OF stored cast auth other, of example_now "''AB12C''"] valid
    by simp
qed

theorem non_owner_update_counterexample:
  "map_of example_db example_id = Some example_order
   \<and> userId example_order = ''auth0|alice1''
   \<and> token (request_of ''auth0|bob2'' bad_time_body) = Verified ''auth0|bob2''
   \<and> \<not> is_Forbidden (fst (update_order example_env example_now example_db
                             (request_of ''auth0|bob2'' bad_time_body) example_id))"
proof -
  have "update_route example_env example_now example_db ''auth0|bob2''
          (request_of ''auth0|bob2'' bad_time_body) example_id
        = (Failure 400 ''Validation failed'', example_db)"
    by code_simp
  then show ?thesis
    by (simp add: update_order_def router_use_examples is_Forbidden_def token_request_of
          example_db_def example_order_def)
qed

text \<open>
  Claim C3, as amended. An order is stored under an id with a status other than \<open>pending\<close>
  and \<open>confirmed\<close>, and a request with a verified token asks to update it. The validation
  chains of the route run first: a body that fails them is answered with 400
  \<open>Validation failed\<close>, whoever sends it. When the body passes them, ownership is checked
  before status: the owner is answered with 400
  \<open>Order cannot be modified in its current status.\<close>, any other user with 403. The owner
  is never answered with 403, and the store is left as it was.
\<close>

theorem owner_status_conflict:
  assumes stored: "map_of db i = Some order"
    and cast: "castable_id env i"
    and auth: "token req = Verified sub"
    and st: "status order \<noteq> ''pending''" "status order \<noteq> ''confirmed''"
  shows "(if put_validation env now (sanitize_body (req_body req)) \<noteq> []
          then is_ValidationFailed (fst (update_order env now db req i))
          else if sub = userId order
          then fst (update_order env now db req i)
                 = Failure 400 ''Order cannot be modified in its current status.''
               \<and> is_Conflict (fst (update_order env now db req i))
          else is_Forbidden (fst (update_order env now db req i))
               \<and> \<not> is_Conflict (fst (update_order env now db req i)))
       \<and> (sub = userId order \<longrightarrow> \<not> is_Forbidden (fst (update_order env now db req i)))
       \<and> snd (update_order env now db req i) = db"
proof -
  have v: "router_use req = Next (sub, sanitize_request req)"
    using auth by (rule router_use_verified)
  have f: "findById env db i = Inr (Some order)"
    using stored cast by (simp add: findById_def)
  have b: "req_body (sanitize_request req) = sanitize_body (req_body req)"
    by (simp add: sanitize_request_def)
  have u: "update_order env now db req i =
             (if put_validation env now (sanitize_body (req_body req)) \<noteq> []
              then (Failure 400 ''Validation failed'', db)
              else if sub = userId order
              then (Failure 400 ''Order cannot be modified in its current status.'', db)
              else (Failure 403 ''Access denied. You can only modify your own orders.'', db))"
    using st by (auto simp: update_order_def update_route_def v f b canBeModifiedBy_def)
  show ?thesis
    by (simp add: u is_Forbidden_def is_ValidationFailed_def is_Conflict_def)
qed

theorem owner_status_conflict_witness:
  "is_Conflict (fst (update_order example_env example_now shipped_db
                      (request_of ''auth0|alice1'' retime_body) example_id))
   \<and> \<not> is_Forbidden (fst (update_order example_env example_now shipped_db
                             (request_of ''auth0|alice1'' retime_body) example_id))
   \<and> snd (update_order example_env example_now shipped_db
            (request_of ''auth0|alice1'' retime_body) example_id) = shipped_db
   \<and> is_Forbidden (fst (update_order example_env example_now shipped_db
                           (request_of ''auth0|bob2'' retime_body) example_id))
   \<and> is_ValidationFailed (fst (update_order example_env example_now shipped_db
                                  (request_of ''auth0|bob2'' bad_time_body) example_id))"
proof -
  have stored: "map_of shipped_db example_id = Some (example_order\<lparr>status := ''shipped''\<rparr>)"
    by (simp add: shipped_db_def)
  have cast: "castable_id example_env example_id"
    by (simp add: example_env_def example_id_def)
  have st: "status (example_order\<lparr>status := ''shipped''\<rparr>) \<noteq> ''pending''"
    "status (example_order\<lparr>status := ''shipped''\<rparr>) \<noteq> ''confirmed''"
    by simp_all
  have owner: "userId (example_order\<lparr>status := ''shipped''\<rparr>) = ''auth0|alice1''"
    "''auth0|bob2'' \<noteq> userId (example_order\<lparr>status := ''shipped''\<rparr>)"
    by (simp_all add: example_order_def)
  have san: "sanitize_body (req_body (request_of sub retime_body)) = retime_body"
    "sanitize_body (req_body (request_of sub bad_time_body)) = bad_time_body" for sub
    using sanitize_examples(2) [of sub] sanitize_examples(3) [of sub]
    by (simp_all add: sanitize_request_def request_of_def)
  have valid: "put_validation example_env example_now retime_body = []"
    "put_validation example_env example_now bad_time_body \<noteq> []"
    by code_simp+
  show ?thesis
    using owner_status_conflict [where sub = "''auth0|alice1''" and now = example_now
            and req = "request_of ''auth0|alice1'' retime_body", OF stored cast token_request_of st]
      owner_status_conflict [where sub = "''auth0|bob2''" and now = example_now
            and req = "request_of ''auth0|bob2'' retime_body", OF stored cast token_request_of st]
      owner_status_conflict [where sub = "''auth0|bob2''" and now = example_now
            and req = "request_of ''auth0|bob2'' bad_time_body", OF stored cast token_request_of st]
      owner san valid
    by (simp add: is_Conflict_def is_Forbidden_def is_ValidationFailed_def)
qed

theorem owner_status_counterexample:
  "map_of shipped_db example_id = Some (example_order\<lparr>status := ''shipped''\<rparr>)
   \<and> token (request_of ''auth0|alice1'' bad_time_body) = Verified (userId example_order)
   \<and> \<not> is_Conflict (fst (update_order example_env example_now shipped_db
                            (request_of ''auth0|alice1'' bad_time_body) example_id))"
proof -
  have "update_route example_env example_now shipped_db ''auth0|alice1''
          (request_of ''auth0|alice1'' bad_time_body) example_id
        = (Failure 400 ''Validation failed'', shipped_db)"
    by code_simp
  then show ?thesis
    by (simp add: update_order_def router_use_examples is_Conflict_def token_request_of
          shipped_db_def example_order_def)
qed
subsection \<open>What an update changes\<close>

lemma findByIdAndUpdate_frame:
  assumes "findByIdAndUpdate env now db i u = Inr (Some doc', db')"
    and "map_of db i = Some doc"
  shows "map_of db' = (map_of db)(i \<mapsto> doc')
       \<and> userId doc' = userId doc \<and> orderNumber doc' = orderNumber doc
       \<and> productName doc' = productName doc \<and> quantity doc' = quantity doc
       \<and> status doc' = status doc \<and> unitPrice doc' = unitPrice doc
       \<and> totalPrice doc' = totalPrice doc \<and> createdAt doc' = createdAt doc
       \<and> shippedAt doc' = shippedAt doc \<and> deliveredAt doc' = deliveredAt doc
       \<and> metadata doc' = metadata doc \<and> version_key doc' = version_key doc
       \<and> updatedAt doc' = now"
  using assms
  by (auto simp: findByIdAndUpdate_def apply_updates_def update_conv' Let_def
           split: if_splits option.splits js_date.splits)

lemma update_route_store:
  "snd (update_route env now db sub req i) = db
   \<or> (\<exists>u doc doc'. map_of db i = Some doc
         \<and> fst (update_route env now db sub req i) = Order_reply 200 (toJSON doc')
         \<and> findByIdAndUpdate env now db i u = Inr (Some doc', snd (update_route env now db sub req i)))"
  by (auto simp: update_route_def findById_def findByIdAndUpdate_def Let_def
           split: sum.splits option.splits mongoose_error.splits if_splits)

lemma update_order_store:
  "snd (update_order env now db req i) = db
   \<or> (\<exists>u doc doc'. map_of db i = Some doc
         \<and> fst (update_order env now db req i) = Order_reply 200 (toJSON doc')
         \<and> findByIdAndUpdate env now db i u = Inr (Some doc', snd (update_order env now db req i)))"
proof (cases "router_use req")
  case (Next p)
  then show ?thesis
    using update_route_store [of env now db "fst p" "snd p" i]
    by (cases p) (simp add: update_order_def)
next
  case (Respond r)
  then show ?thesis by (simp add: update_order_def)
qed

lemma update_order_success:
  assumes "update_order env now db req i = (Order_reply code out, db')"
  shows "\<exists>u doc doc'. map_of db i = Some doc \<and> findByIdAndUpdate env now db i u = Inr (Some doc', db')"
proof (cases "router_use req")
  case (Respond r)
  with assms router_use_denied [OF Respond] show ?thesis
    by (simp add: update_order_def is_success_def)
next
  case (Next p)
  obtain sub req' where p: "p = (sub, req')" by (cases p)
  from assms Next p have r: "update_route env now db sub req' i = (Order_reply code out, db')"
    by (simp add: update_order_def)
  then show ?thesis
    by (auto simp: update_route_def findById_def Let_def
             split: sum.splits option.splits mongoose_error.splits if_splits prod.splits)
qed

lemma update_example:
  "update_order example_env example_now example_db (request_of ''auth0|alice1'' retime_body) example_id
     = (Order_reply 200 (toJSON retimed_order), [(example_id, retimed_order)])"
proof -
  have "update_route example_env example_now example_db ''auth0|alice1''
          (request_of ''auth0|alice1'' retime_body) example_id
        = (Order_reply 200 (toJSON retimed_order), [(example_id, retimed_order)])"
    by code_simp
  then show ?thesis
    by (simp add: update_order_def router_use_examples)
qed

text \<open>
  Claim C10, as amended. When \<open>PUT /:id\<close> succeeds at the time \<open>now\<close>, the stored order
  differs from what it was in \<open>deliveryDate\<close>, \<open>deliveryTime\<close>, \<open>deliveryLocation\<close>,
  \<open>message\<close> and \<open>updatedAt\<close> at most, and \<open>updatedAt\<close> is \<open>now\<close>: the schema has
  \<open>timestamps: true\<close>, so \<open>findByIdAndUpdate\<close> sets it on every update. The order keeps its
  \<open>userId\<close>, \<open>productName\<close>, \<open>quantity\<close>, \<open>unitPrice\<close>, \<open>totalPrice\<close>, \<open>status\<close>,
  \<open>orderNumber\<close> and \<open>createdAt\<close>, whatever the body of the request holds (its further
  members are in \<open>b_other\<close>); so do \<open>shippedAt\<close>, \<open>deliveredAt\<close>, \<open>metadata\<close> and \<open>__v\<close>, and
  every other document of the store.
\<close>

theorem update_frame:
  assumes upd: "update_order env now db req i = (Order_reply code out, db')"
    and stored: "map_of db i = Some order"
  shows "\<exists>order'. map_of db' i = Some order'
       \<and> order' = order\<lparr>deliveryDate := deliveryDate order', deliveryTime := deliveryTime order',
                          deliveryLocation := deliveryLocation order', message := message order',
                          updatedAt := now\<rparr>
       \<and> userId order' = userId order \<and> productName order' = productName order
       \<and> quantity order' = quantity order \<and> unitPrice order' = unitPrice order
       \<and> totalPrice order' = totalPrice order \<and> status order' = status order
       \<and> orderNumber order' = orderNumber order \<and> createdAt order' = createdAt order
       \<and> shippedAt order' = shippedAt order \<and> deliveredAt order' = deliveredAt order
       \<and> metadata order' = metadata order \<and> version_key order' = version_key order
       \<and> updatedAt order' = now
       \<and> (\<forall>j. j \<noteq> i \<longrightarrow> map_of db' j = map_of db j)"
proof -
  from update_order_success [OF upd] obtain u doc' where
    fu: "findByIdAndUpdate env now db i u = Inr (Some doc', db')"
    by blast
  from findByIdAndUpdate_frame [OF fu stored] show ?thesis
    by simp
qed

theorem update_frame_witness:
  "update_order example_env example_now example_db (request_of ''auth0|alice1'' retime_body) example_id
     = (Order_reply 200 (toJSON retimed_order), [(example_id, retimed_order)])
   \<and> (\<exists>order'. map_of [(example_id, retimed_order)] example_id = Some order'
        \<and> userId order' = userId example_order \<and> productName order' = productName example_order
        \<and> quantity order' = quantity example_order \<and> unitPrice order' = unitPrice example_order
        \<and> totalPrice order' = totalPrice example_order \<and> status order' = status example_order
        \<and> orderNumber order' = orderNumber example_order
        \<and> createdAt order' = createdAt example_order
        \<and> updatedAt order' = example_now)"
proof -
  have stored: "map_of example_db example_id = Some example_order"
    by (simp add: example_db_def)
  show ?thesis
    using update_frame [OF update_example stored] update_example by blast
qed

text \<open>
  The claim as it was stated lets only the four delivery fields change. The update of the
  example succeeds and the stored order has another \<open>updatedAt\<close> than before.
\<close>

theorem update_sets_updatedAt_counterexample:
  "map_of example_db example_id = Some example_order
   \<and> update_order example_env example_now example_db (request_of ''auth0|alice1'' retime_body) example_id
       = (Order_reply 200 (toJSON retimed_order), [(example_id, retimed_order)])
   \<and> map_of [(example_id, retimed_order)] example_id = Some retimed_order
   \<and> updatedAt retimed_order \<noteq> updatedAt example_order"
  using update_example
  by (simp add: example_db_def retimed_order_def example_order_def example_now_def)

subsection \<open>The total price\<close>

lemma pre_save_total_ok: "total_ok (pre_save now rand doc)"
  by (simp add: pre_save_def total_ok_def Let_def)

lemma save_total_ok: "save env now rand doc = Inr saved \<Longrightarrow> total_ok saved"
  by (auto simp: save_def pre_save_total_ok split: if_splits)

lemma create_route_store:
  "snd (create_route env now rand oid db sub req) = db
   \<or> (\<exists>saved. total_ok saved \<and> snd (create_route env now rand oid db sub req) = db @ [(oid, saved)])"
  by (auto simp: create_route_def Let_def dest: save_total_ok
           split: sum.splits option.splits js_date.splits mongoose_error.splits)

lemma create_order_store:
  "snd (create_order env now rand oid db req) = db
   \<or> (\<exists>saved. total_ok saved \<and> snd (create_order env now rand oid db req) = db @ [(oid, saved)])"
proof (cases "router_use req")
  case (Next p)
  then show ?thesis
    using create_route_store [of env now rand oid db "fst p" "snd p"]
    by (cases p) (simp add: create_order_def)
next
  case (Respond r)
  then show ?thesis by (simp add: create_order_def)
qed

lemma cancel_route_store:
  "snd (cancel_route env now rand db sub i) = db
   \<or> (\<exists>saved. total_ok saved \<and> snd (cancel_route env now rand db sub i) = AList.update i saved db)"
  by (auto simp: cancel_route_def Let_def dest: save_total_ok
           split: sum.splits option.splits mongoose_error.splits)

lemma cancel_order_store:
  "snd (cancel_order env now rand db req i) = db
   \<or> (\<exists>saved. total_ok saved \<and> snd (cancel_order env now rand db req i) = AList.update i saved db)"
proof (cases "router_use req")
  case (Next p)
  then show ?thesis
    using cancel_route_store [of env now rand db "fst p" i]
    by (cases p) (simp add: cancel_order_def)
next
  case (Respond r)
  then show ?thesis by (simp add: cancel_order_def)
qed

lemma router_use_other:
  "router_use (req\<lparr>req_body := (req_body req)\<lparr>b_other := x\<rparr>\<rparr>)
     = (case router_use req of
          Respond r \<Rightarrow> Respond r
        | Next (sub, req') \<Rightarrow>
            Next (sub, req'\<lparr>req_body := (req_body req')
                    \<lparr>b_other := map (\<lambda>kv. (fst kv, sanitize_value (snd kv))) x\<rparr>\<rparr>))"
  by (simp add: router_use_def sanitize_request_def verifyToken_def sanitize_body_def
           split: token.splits)

lemma create_route_other:
  "snd (create_route env now rand oid db sub (req\<lparr>req_body := (req_body req)\<lparr>b_other := x\<rparr>\<rparr>))
     = snd (create_route env now rand oid db sub req)"
  by (simp add: create_route_def post_validation_def after_chains_def new_order_def Let_def
           split: option.splits sum.splits js_date.splits mongoose_error.splits)

lemma update_route_other:
  "snd (update_route env now db sub (req\<lparr>req_body := (req_body req)\<lparr>b_other := x\<rparr>\<rparr>) i)
     = snd (update_route env now db sub req i)"
  by (simp add: update_route_def put_validation_def after_chains_def body_updates_def Let_def
           split: option.splits sum.splits mongoose_error.splits)

text \<open>
  Claim C1, as amended. The pre-save hook sets the total to the unit price times the
  quantity, whatever the document held before; so every order that \<open>save()\<close> stores, on
  creation and on cancellation, satisfies \<open>totalPrice = unitPrice * quantity\<close>. An update
  goes through \<open>findByIdAndUpdate\<close>, which runs no pre-save hook: it computes nothing, and
  leaves \<open>unitPrice\<close>, \<open>quantity\<close> and \<open>totalPrice\<close> of every stored order as they were, so
  the equation holds after an update exactly when it held before. No route reads a total
  from the request: the stores after creation and after an update do not depend on the
  further members of the body.
\<close>

theorem total_price_on_save:
  "(\<forall>doc. total_ok (pre_save now rand doc))
   \<and> (\<forall>k doc. map_of (snd (create_order env now rand oid db req)) k = Some doc
        \<longrightarrow> map_of db k = Some doc \<or> total_ok doc)
   \<and> (\<forall>k doc. map_of (snd (cancel_order env now rand db req i)) k = Some doc
        \<longrightarrow> map_of db k = Some doc \<or> total_ok doc)
   \<and> (\<forall>k doc. map_of (snd (update_order env now db req i)) k = Some doc
        \<longrightarrow> (\<exists>old. map_of db k = Some old \<and> unitPrice doc = unitPrice old
                  \<and> quantity doc = quantity old \<and> totalPrice doc = totalPrice old))
   \<and> snd (create_order env now rand oid db (req\<lparr>req_body := (req_body req)\<lparr>b_other := other\<rparr>\<rparr>))
       = snd (create_order env now rand oid db req)
   \<and> snd (update_order env now db (req\<lparr>req_body := (req_body req)\<lparr>b_other := other\<rparr>\<rparr>) i)
       = snd (update_order env now db req i)"
proof -
  have c: "map_of db k = Some doc \<or> total_ok doc"
    if "map_of (snd (create_order env now rand oid db req)) k = Some doc" for k doc
    using create_order_store [of env now rand oid db req] that
    by (auto simp: map_add_Some_iff split: if_splits)
  have d: "map_of db k = Some doc \<or> total_ok doc"
    if "map_of (snd (cancel_order env now rand db req i)) k = Some doc" for k doc
    using cancel_order_store [of env now rand db req i] that
    by (auto simp: update_conv' split: if_splits)
  have u: "\<exists>old. map_of db k = Some old \<and> unitPrice doc = unitPrice old
                  \<and> quantity doc = quantity old \<and> totalPrice doc = totalPrice old"
    if "map_of (snd (update_order env now db req i)) k = Some doc" for k doc
    using update_order_store [of env now db req i]
  proof
    assume "snd (update_order env now db req i) = db"
    with that show ?thesis by simp
  next
    assume "\<exists>u doc doc'. map_of db i = Some doc
         \<and> fst (update_order env now db req i) = Order_reply 200 (toJSON doc')
         \<and> findByIdAndUpdate env now db i u = Inr (Some doc', snd (update_order env now db req i))"
    then obtain u old doc' where st: "map_of db i = Some old"
      and fu: "findByIdAndUpdate env now db i u = Inr (Some doc', snd (update_order env now db req i))"
      by blast
    from findByIdAndUpdate_frame [OF fu st] that st show ?thesis
      by (cases "k = i") auto
  qed
  have nc: "snd (create_order env now rand oid db (req\<lparr>req_body := (req_body req)\<lparr>b_other := other\<rparr>\<rparr>))
       = snd (create_order env now rand oid db req)"
    by (simp add: create_order_def router_use_other create_route_other
             split: outcome.splits prod.splits)
  have nu: "snd (update_order env now db (req\<lparr>req_body := (req_body req)\<lparr>b_other := other\<rparr>\<rparr>) i)
       = snd (update_order env now db req i)"
    by (simp add: update_order_def router_use_other update_route_other
             split: outcome.splits prod.splits)
  show ?thesis using pre_save_total_ok c d u nc nu by blast
qed

theorem total_price_on_save_witness:
  "snd (cancel_order example_env example_now ''AB12C'' stale_db
         (request_of ''auth0|alice1'' empty_body) example_id) = [(example_id, cancelled_order)]
   \<and> total_ok cancelled_order
   \<and> snd (update_order example_env example_now stale_db
            (request_of ''auth0|alice1'' retime_body) example_id)
       = [(example_id, example_order\<lparr>totalPrice := Some 1, deliveryTime := ''11:00 AM'',
                                         updatedAt := example_now\<rparr>)]
   \<and> (\<exists>old. map_of stale_db example_id = Some old \<and> totalPrice old = Some 1)"
proof -
  let ?db = "snd (cancel_order example_env example_now ''AB12C'' stale_db
                   (request_of ''auth0|alice1'' empty_body) example_id)"
  let ?db' = "snd (update_order example_env example_now stale_db
                    (request_of ''auth0|alice1'' retime_body) example_id)"
  let ?upd = "example_order\<lparr>totalPrice := Some 1, deliveryTime := ''11:00 AM'',
                             updatedAt := example_now\<rparr>"
  have "snd (cancel_route example_env example_now ''AB12C'' stale_db ''auth0|alice1'' example_id)
          = [(example_id, cancelled_order)]"
    by code_simp
  then have ev: "?db = [(example_id, cancelled_order)]"
    by (simp add: cancel_order_def router_use_examples)
  have ne: "map_of stale_db example_id \<noteq> Some cancelled_order"
    by code_simp
  have "snd (update_route example_env example_now stale_db ''auth0|alice1''
               (request_of ''auth0|alice1'' retime_body) example_id) = [(example_id, ?upd)]"
    by code_simp
  then have ev': "?db' = [(example_id, ?upd)]"
    by (simp add: update_order_def router_use_examples)
  have "map_of ?db example_id = Some cancelled_order
          \<longrightarrow> map_of stale_db example_id = Some cancelled_order \<or> total_ok cancelled_order"
    using total_price_on_save [where env = example_env and now = example_now and rand = "''AB12C''"
            and db = stale_db and req = "request_of ''auth0|alice1'' empty_body" and i = example_id]
    by blast
  then have a: "total_ok cancelled_order"
    using ev ne by simp
  have "map_of ?db' example_id = Some ?upd
          \<longrightarrow> (\<exists>old. map_of stale_db example_id = Some old \<and> unitPrice ?upd = unitPrice old
                     \<and> quantity ?upd = quantity old \<and> totalPrice ?upd = totalPrice old)"
    using total_price_on_save [where env = example_env and now = example_now
            and db = stale_db and req = "request_of ''auth0|alice1'' retime_body" and i = example_id]
    by blast
  then have b: "\<exists>old. map_of stale_db example_id = Some old \<and> totalPrice old = Some 1"
    using ev' by auto
  show ?thesis
    using ev a ev' b by simp
qed

theorem stale_total_counterexample:
  "is_success (fst (update_order example_env example_now stale_db
                     (request_of ''auth0|alice1'' retime_body) example_id))
   \<and> \<not> total_ok (the (map_of (snd (update_order example_env example_now stale_db
                                     (request_of ''auth0|alice1'' retime_body) example_id))
                            example_id))"
proof -
  have "is_success (fst (update_route example_env example_now stale_db ''auth0|alice1''
                     (request_of ''auth0|alice1'' retime_body) example_id))
   \<and> \<not> total_ok (the (map_of (snd (update_route example_env example_now stale_db ''auth0|alice1''
                                     (request_of ''auth0|alice1'' retime_body) example_id))
                            example_id))"
    by code_simp
  then show ?thesis
    by (simp add: update_order_def router_use_examples)
qed

subsection \<open>The order number\<close>

lemma create_route_never_saves:
  "snd (create_route env now rand oid db sub req) = db
   \<and> \<not> is_success (fst (create_route env now rand oid db sub req))"
  by (simp add: create_route_def save_def required_present_def new_order_def is_success_def
                Let_def
           split: sum.splits option.splits js_date.splits mongoose_error.splits)

lemma create_order_never_saves:
  "snd (create_order env now rand oid db req) = db
   \<and> \<not> is_success (fst (create_order env now rand oid db req))"
proof (cases "router_use req")
  case (Next p)
  then show ?thesis
    using create_route_never_saves [of env now rand oid db "fst p" "snd p"]
    by (cases p) (simp add: create_order_def)
next
  case (Respond r)
  then show ?thesis
    using router_use_denied [OF Respond] by (simp add: create_order_def)
qed

lemma save_keeps_number: "save env now rand doc = Inr saved \<Longrightarrow> orderNumber saved = orderNumber doc"
  by (auto simp: save_def required_present_def pre_save_def Let_def split: if_splits)

lemma order_number_stable:
  "(\<forall>k doc. map_of (snd (update_order env now db req i)) k = Some doc
        \<longrightarrow> (\<exists>old. map_of db k = Some old \<and> orderNumber doc = orderNumber old))
   \<and> (\<forall>k doc. map_of (snd (cancel_order env now rand db req i)) k = Some doc
        \<longrightarrow> (\<exists>old. map_of db k = Some old \<and> orderNumber doc = orderNumber old))"
proof -
  have u: "\<exists>old. map_of db k = Some old \<and> orderNumber doc = orderNumber old"
    if "map_of (snd (update_order env now db req i)) k = Some doc" for k doc
    using update_order_store [of env now db req i]
  proof
    assume "snd (update_order env now db req i) = db"
    with that show ?thesis by simp
  next
    assume "\<exists>u doc doc'. map_of db i = Some doc
         \<and> fst (update_order env now db req i) = Order_reply 200 (toJSON doc')
         \<and> findByIdAndUpdate env now db i u = Inr (Some doc', snd (update_order env now db req i))"
    then obtain u old doc' where st: "map_of db i = Some old"
      and fu: "findByIdAndUpdate env now db i u = Inr (Some doc', snd (update_order env now db req i))"
      by blast
    from findByIdAndUpdate_frame [OF fu st] that st show ?thesis
      by (cases "k = i") auto
  qed
  have cr: "\<exists>old. map_of db k = Some old \<and> orderNumber doc = orderNumber old"
    if "map_of (snd (cancel_route env now rand db sub i)) k = Some doc" for k doc sub
    using that
    by (auto simp: cancel_route_def findById_def update_conv' Let_def
             dest: save_keeps_number
             split: sum.splits option.splits mongoose_error.splits if_splits)
  have c: "\<exists>old. map_of db k = Some old \<and> orderNumber doc = orderNumber old"
    if "map_of (snd (cancel_order env now rand db req i)) k = Some doc" for k doc
  proof (cases "router_use req")
    case (Next p)
    with that cr [of "fst p" k doc] show ?thesis
      by (cases p) (simp add: cancel_order_def)
  next
    case (Respond r)
    with that show ?thesis by (simp add: cancel_order_def)
  qed
  show ?thesis using u c by blast
qed

text \<open>
  Claim C6, at a request that passes every validation chain of \<open>POST /\<close>. The new document
  has no order number and no total when \<open>save()\<close> validates it, both paths are required,
  and the hook that would set them runs only after validation: the route answers 400
  \<open>Validation failed\<close> and stores nothing.
\<close>

theorem create_order_rejected:
  "post_validation example_env example_now (sanitize_body valid_body) = []
   \<and> create_order example_env example_now ''AB12C'' ''65f0c0ffee0000000000a002'' example_db
         (request_of ''auth0|alice1'' valid_body)
       = (Failure 400 ''Validation failed'', example_db)"
proof -
  have s: "sanitize_body valid_body = valid_body"
    using sanitize_examples(4) [of "''u''"] by (simp add: sanitize_request_def request_of_def)
  have v: "post_validation example_env example_now valid_body = []"
    by code_simp
  have "create_route example_env example_now ''AB12C'' ''65f0c0ffee0000000000a002'' example_db
          ''auth0|alice1'' (request_of ''auth0|alice1'' valid_body)
        = (Failure 400 ''Validation failed'', example_db)"
    by code_simp
  then show ?thesis
    by (simp add: s v create_order_def router_use_examples)
qed

subsection \<open>Rate limiter\<close>














subsection \<open>Delivery dates\<close>



















subsection \<open>Serialized orders\<close>

lemma toJSON_metadata:
  "metadata (toJSON doc)
     = map_option (\<lambda>m. \<lparr>ipAddress = None, userAgent = None, sessionId = None\<rparr>) (metadata doc)
   \<and> toJSON doc = doc\<lparr>metadata := metadata (toJSON doc), version_key := None\<rparr>"
  by (cases "metadata doc") (simp_all add: toJSON_def)

lemma route_reply_serialized:
  "(get_route env db sub i = Order_reply code out \<longrightarrow> (\<exists>doc. out = toJSON doc))
   \<and> (fst (create_route env now rand oid db sub req) = Order_reply code out \<longrightarrow> (\<exists>doc. out = toJSON doc))
   \<and> (fst (update_route env now db sub req i) = Order_reply code out \<longrightarrow> (\<exists>doc. out = toJSON doc))
   \<and> (fst (cancel_route env now rand db sub i) = Order_reply code out \<longrightarrow> (\<exists>doc. out = toJSON doc))"
proof (intro conjI impI)
  assume "get_route env db sub i = Order_reply code out"
  then show "\<exists>doc. out = toJSON doc"
    by (auto simp: get_route_def split: sum.splits option.splits mongoose_error.splits if_splits)
next
  assume "fst (create_route env now rand oid db sub req) = Order_reply code out"
  with create_route_never_saves [of env now rand oid db sub req]
  show "\<exists>doc. out = toJSON doc" by (simp add: is_success_def)
next
  assume "fst (update_route env now db sub req i) = Order_reply code out"
  with update_route_store [of env now db sub req i]
  show "\<exists>doc. out = toJSON doc"
    by (auto simp: update_route_def findById_def Let_def
             split: sum.splits option.splits mongoose_error.splits if_splits prod.splits)
next
  assume "fst (cancel_route env now rand db sub i) = Order_reply code out"
  then show "\<exists>doc. out = toJSON doc"
    by (auto simp: cancel_route_def Let_def
             split: sum.splits option.splits mongoose_error.splits if_splits)
qed

text \<open>
  Claim C9, at the list route. \<open>GET /\<close> answers with the stored objects as \<open>lean()\<close> returns
  them: the order in the answer still carries the client address, the user agent and the
  session id that were stored with it (and \<open>__v\<close>). The other routes serialize through
  \<open>toJSON\<close>, which deletes them.
\<close>

theorem list_orders_keeps_metadata:
  "list_orders example_env example_now example_db (request_of ''auth0|alice1'' empty_body) default_query
     = Orders_reply [example_order] [example_order] []
         \<lparr>currentPage = 1, totalPages = Some 1, totalOrders = 1, limit = 10\<rparr>
   \<and> metadata example_order
       = Some \<lparr>ipAddress = Some ''203.0.113.7'', userAgent = Some ''Mozilla/5.0'',
               sessionId = Some ''s1''\<rparr>"
proof -
  have "list_route example_env example_now example_db ''auth0|alice1'' default_query
     = Orders_reply [example_order] [example_order] []
         \<lparr>currentPage = 1, totalPages = Some 1, totalOrders = 1, limit = 10\<rparr>"
    by code_simp
  moreover have "sanitize_query default_query = default_query"
    by (simp add: sanitize_query_def default_query_def)
  ultimately show ?thesis
    by (simp add: list_orders_def router_use_examples example_order_def)
qed

end
